theory Spec2Isabelle
  imports Complex_Main "HOL-Library.Char_ord" "HOL-Library.List_Lexorder"
    "HOL-Library.Product_Lexorder"
begin

section \<open>Python values and exceptions\<close>

text \<open>
  The exporter works on what \<^verbatim>\<open>response.json()\<close> returns: \<^verbatim>\<open>None\<close>, booleans, integers,
  floats, strings, lists and dictionaries. A dictionary is an association list in insertion
  order; a lookup takes the first binding of a key. A float is carried by the rational it
  denotes (not-a-number and the infinities are left out), a string by its list of
  characters. The string operations below are those of Python on ASCII text: a character
  outside the ASCII range is neither a letter, a digit nor a space here, and \<^verbatim>\<open>upper\<close>
  leaves it as it is.
\<close>

datatype pyval =
    PNone
  | PBool bool
  | PInt int
  | PFloat rat
  | PStr string
  | PList "pyval list"
  | PDict "(string \<times> pyval) list"

datatype py_error = KeyError | IndexError | TypeError | AttributeError | ValueError

type_synonym row = "(string \<times> pyval) list"

text \<open>Truth value testing, as \<^verbatim>\<open>if x:\<close> and \<^verbatim>\<open>not x\<close> do it.\<close>

fun truthy :: "pyval \<Rightarrow> bool" where
  "truthy PNone = False"
| "truthy (PBool b) = b"
| "truthy (PInt n) = (n \<noteq> 0)"
| "truthy (PFloat q) = (q \<noteq> 0)"
| "truthy (PStr s) = (s \<noteq> [])"
| "truthy (PList xs) = (xs \<noteq> [])"
| "truthy (PDict kvs) = (kvs \<noteq> [])"

text \<open>\<^verbatim>\<open>d.get(k, default)\<close> on a dictionary.\<close>

definition dict_get :: "(string \<times> pyval) list \<Rightarrow> string \<Rightarrow> pyval \<Rightarrow> pyval" where
  "dict_get d k dflt = (case map_of d k of Some v \<Rightarrow> v | None \<Rightarrow> dflt)"

text \<open>
  \<^verbatim>\<open>x.get(k, default)\<close> on any value: only a dictionary has the method, every other value
  raises AttributeError.
\<close>

fun py_get :: "pyval \<Rightarrow> string \<Rightarrow> pyval \<Rightarrow> py_error + pyval" where
  "py_get (PDict d) k dflt = Inr (dict_get d k dflt)"
| "py_get _ k dflt = Inl AttributeError"

text \<open>
  \<^verbatim>\<open>round(x, 1)\<close>. An integer (and a boolean, which is one) is returned as an integer;
  a float is rounded to the nearest multiple of one tenth of its exact value, ties to the
  even one (the result is carried as that multiple, where the interpreter stores the float
  nearest to it); any other value has no \<^verbatim>\<open>__round__\<close> and raises TypeError.
\<close>

definition round_half_even :: "rat \<Rightarrow> int" where
  "round_half_even y =
     (let f = \<lfloor>y\<rfloor>; d = y - of_int f
      in if d < 1 / 2 then f
         else if 1 / 2 < d then f + 1
         else if even f then f else f + 1)"

fun py_round1 :: "pyval \<Rightarrow> py_error + pyval" where
  "py_round1 (PInt n) = Inr (PInt n)"
| "py_round1 (PBool b) = Inr (PInt (if b then 1 else 0))"
| "py_round1 (PFloat q) = Inr (PFloat (of_int (round_half_even (10 * q)) / 10))"
| "py_round1 _ = Inl TypeError"

section \<open>Strings\<close>

text \<open>\<^verbatim>\<open>s.replace(old, new)\<close>: every non-overlapping occurrence, from the left.\<close>

fun replace_from :: "string \<Rightarrow> string \<Rightarrow> string \<Rightarrow> string" where
  "replace_from old new [] = []"
| "replace_from old new (c # cs) =
     (if old \<noteq> [] \<and> take (length old) (c # cs) = old
      then new @ replace_from old new (drop (length old) (c # cs))
      else c # replace_from old new cs)"

definition replace :: "string \<Rightarrow> string \<Rightarrow> string \<Rightarrow> string" where
  "replace s old new =
     (if old = [] then new @ concat (map (\<lambda>c. c # new) s) else replace_from old new s)"

definition is_lower :: "char \<Rightarrow> bool" where
  "is_lower c = (CHR ''a'' \<le> c \<and> c \<le> CHR ''z'')"

definition is_upper :: "char \<Rightarrow> bool" where
  "is_upper c = (CHR ''A'' \<le> c \<and> c \<le> CHR ''Z'')"

definition is_digit :: "char \<Rightarrow> bool" where
  "is_digit c = (CHR ''0'' \<le> c \<and> c \<le> CHR ''9'')"

text \<open>
  The characters \<^verbatim>\<open>int()\<close> skips at both ends of an ASCII string: tab, line feed,
  vertical tab, form feed, carriage return and the space (codes 9 to 13 and 32). The
  separators 28 to 31 are not among them.
\<close>

definition is_space :: "char \<Rightarrow> bool" where
  "is_space c = (let n = (of_char c :: nat) in (9 \<le> n \<and> n \<le> 13) \<or> n = 32)"

text \<open>\<^verbatim>\<open>s.upper()\<close>: the letters \<^verbatim>\<open>a\<close> to \<^verbatim>\<open>z\<close> become \<^verbatim>\<open>A\<close> to \<^verbatim>\<open>Z\<close>.\<close>

definition upper_char :: "char \<Rightarrow> char" where
  "upper_char c = (if is_lower c then char_of (of_char c - (32 :: nat)) else c)"

definition upper :: "string \<Rightarrow> string" where
  "upper s = map upper_char s"

definition digit_val :: "char \<Rightarrow> int" where
  "digit_val c = int (of_char c) - 48"

text \<open>
  The digits of a decimal literal: a digit first, then digits, each optionally preceded by
  one underscore. \<open>digits_value acc cs\<close> is the value read, or None when \<open>cs\<close> is not
  of that shape.
\<close>

fun digits_value :: "int \<Rightarrow> string \<Rightarrow> int option" where
  "digits_value acc [] = Some acc"
| "digits_value acc [c] = (if is_digit c then Some (10 * acc + digit_val c) else None)"
| "digits_value acc (c # d # cs) =
     (if is_digit c then digits_value (10 * acc + digit_val c) (d # cs)
      else if c = CHR ''_'' \<and> is_digit d then digits_value acc (d # cs)
      else None)"

definition strip :: "string \<Rightarrow> string" where
  "strip s = rev (dropWhile is_space (rev (dropWhile is_space s)))"

text \<open>
  The interpreter's limit on the digits of a decimal string that \<^verbatim>\<open>int()\<close> converts
  (\<^verbatim>\<open>sys.int_info.default_max_str_digits\<close>): a string with more digits raises ValueError.
\<close>

definition int_max_str_digits :: nat where
  "int_max_str_digits = 4300"

text \<open>
  \<^verbatim>\<open>int(s)\<close> in base ten; None stands for ValueError. Surrounding whitespace is dropped,
  one sign is allowed, and the literal must start with a digit. The value is unbounded, but
  a string of more than \<open>int_max_str_digits\<close> digits (leading zeros counted, underscores
  not) is refused.
\<close>

definition py_int :: "string \<Rightarrow> int option" where
  "py_int s =
     (if int_max_str_digits < length (filter is_digit s) then None
      else
        (case strip s of
           [] \<Rightarrow> None
         | c # cs \<Rightarrow>
             if c = CHR ''-'' then
               (case cs of [] \<Rightarrow> None
                | d # ds \<Rightarrow> if is_digit d then map_option uminus (digits_value 0 cs) else None)
             else if c = CHR ''+'' then
               (case cs of [] \<Rightarrow> None
                | d # ds \<Rightarrow> if is_digit d then digits_value 0 cs else None)
             else if is_digit c then digits_value 0 (c # cs)
             else None))"

text \<open>
  \<^verbatim>\<open>re.match(r'^([A-Z]+)(\d+)$', s)\<close>, giving the two groups. The letters and the digits
  are disjoint, so the greedy split is the only one; \<^verbatim>\<open>$\<close> also matches just before a
  final line feed.
\<close>

definition re_match :: "string \<Rightarrow> (string \<times> string) option" where
  "re_match s =
     (let prefix = takeWhile is_upper s; rest = dropWhile is_upper s;
          num = takeWhile is_digit rest; tail = dropWhile is_digit rest
      in if prefix \<noteq> [] \<and> num \<noteq> [] \<and> (tail = [] \<or> tail = [CHR 0x0A])
         then Some (prefix, num) else None)"

section \<open>The sort key\<close>

text \<open>
  A key is a tuple of three components, each an integer or a string. Comparing an integer
  with a string by \<^verbatim>\<open><\<close> raises TypeError; \<^verbatim>\<open>==\<close> between them is False.
\<close>

datatype atom = AInt int | AStr string

type_synonym key = "atom \<times> atom \<times> atom"

fun atom_lt :: "atom \<Rightarrow> atom \<Rightarrow> py_error + bool" where
  "atom_lt (AInt m) (AInt n) = Inr (m < n)"
| "atom_lt (AStr s) (AStr t) = Inr (s < t)"
| "atom_lt _ _ = Inl TypeError"

text \<open>Tuple comparison: the first position where the components differ decides.\<close>

fun tuple_lt :: "key \<Rightarrow> key \<Rightarrow> py_error + bool" where
  "tuple_lt (a1, a2, a3) (b1, b2, b3) =
     (if a1 \<noteq> b1 then atom_lt a1 b1
      else if a2 \<noteq> b2 then atom_lt a2 b2
      else if a3 \<noteq> b3 then atom_lt a3 b3
      else Inr False)"

definition special :: "(string \<times> int) list" where
  "special = [(''X'', 1000), (''Y'', 1001), (''MT'', 1002), (''M'', 1002),
              (''MITO'', 1002), (''MITOCHONDRION'', 1002)]"

text \<open>The label as the key sees it: \<^verbatim>\<open>.replace("chr", "").replace("Chr", "").upper()\<close>.\<close>

definition normalize :: "string \<Rightarrow> string" where
  "normalize s = upper (replace (replace s ''chr'' '''') ''Chr'' '''')"

text \<open>
  The key of a normalised label (the body of \<^verbatim>\<open>sort_key\<close> after its first line). The
  first \<^verbatim>\<open>int\<close> is inside \<^verbatim>\<open>try ... except ValueError\<close>; the second, on the digits the
  pattern matched, is not, and its ValueError leaves \<^verbatim>\<open>sort_key\<close>.
\<close>

definition label_key :: "string \<Rightarrow> py_error + key" where
  "label_key chr_name =
     (case map_of special chr_name of
        Some n \<Rightarrow> Inr (AInt 0, AInt n, AStr '''')
      | None \<Rightarrow>
          (case py_int chr_name of
             Some n \<Rightarrow> Inr (AInt 0, AInt n, AStr '''')
           | None \<Rightarrow>
               (case re_match chr_name of
                  Some (prefix, num) \<Rightarrow>
                    (case py_int num of
                       Some n \<Rightarrow> Inr (AInt 1, AStr prefix, AInt n)
                     | None \<Rightarrow> Inl ValueError)
                | None \<Rightarrow> Inr (AInt 2, AStr chr_name, AInt 0))))"

text \<open>
  \<^verbatim>\<open>sort_key(item)\<close>: \<^verbatim>\<open>item['Chromosome']\<close> raises KeyError when the column is
  missing, and only a string has \<^verbatim>\<open>.replace\<close>.
\<close>

definition sort_key :: "row \<Rightarrow> py_error + key" where
  "sort_key item =
     (case map_of item ''Chromosome'' of
        None \<Rightarrow> Inl KeyError
      | Some (PStr s) \<Rightarrow> label_key (normalize s)
      | Some _ \<Rightarrow> Inl AttributeError)"

section \<open>Paginated fetch\<close>

text \<open>
  What one \<^verbatim>\<open>requests.get\<close>, \<^verbatim>\<open>raise_for_status\<close> and \<^verbatim>\<open>.json()\<close> give: the parsed
  body, or an exception of the class \<^verbatim>\<open>requests.exceptions.RequestException\<close>
  (connection failure, timeout, HTTP error status, undecodable body).
\<close>

datatype response = RequestException | Json pyval

text \<open>
  The remote endpoint, as the loop sees it: the answer to the \<open>i\<close>-th request, given the
  \<^verbatim>\<open>page_token\<close> parameter it carries (None when \<^verbatim>\<open>params\<close> is empty).
\<close>

type_synonym endpoint = "nat \<Rightarrow> pyval option \<Rightarrow> response"

text \<open>
  \<^verbatim>\<open>reports.extend(x)\<close> iterates over \<open>x\<close>: a list gives its elements, a string its
  characters, a dictionary its keys; nothing else is iterable.
\<close>

fun py_iter :: "pyval \<Rightarrow> py_error + pyval list" where
  "py_iter (PList xs) = Inr xs"
| "py_iter (PStr s) = Inr (map (\<lambda>c. PStr [c]) s)"
| "py_iter (PDict kvs) = Inr (map (\<lambda>kv. PStr (fst kv)) kvs)"
| "py_iter _ = Inl TypeError"

text \<open>The parameter of the next request: \<^verbatim>\<open>params["page_token"]\<close> is set for a true token only.\<close>

definition token_param :: "pyval \<Rightarrow> pyval option" where
  "token_param page_token = (if truthy page_token then Some page_token else None)"

text \<open>
  The \<^verbatim>\<open>while True\<close> loop of \<^verbatim>\<open>fetch_all_sequence_reports\<close>, from the \<open>i\<close>-th request on.
  A RequestException ends the loop with what was accumulated; an exception of another class
  (from \<^verbatim>\<open>data.get\<close> or \<^verbatim>\<open>extend\<close>) leaves the function. The loop need not end: the
  result is None when it does not.
\<close>

partial_function (option) fetch_pages ::
  "endpoint \<Rightarrow> nat \<Rightarrow> pyval \<Rightarrow> pyval list \<Rightarrow> (py_error + pyval list) option" where
  "fetch_pages api i page_token reports =
     (case api i (token_param page_token) of
        RequestException \<Rightarrow> Some (Inr reports)
      | Json data \<Rightarrow>
          (case py_get data ''reports'' (PList []) of
             Inl e \<Rightarrow> Some (Inl e)
           | Inr r \<Rightarrow>
               (case py_iter r of
                  Inl e \<Rightarrow> Some (Inl e)
                | Inr items \<Rightarrow>
                    (case py_get data ''next_page_token'' PNone of
                       Inl e \<Rightarrow> Some (Inl e)
                     | Inr page_token' \<Rightarrow>
                         if \<not> truthy page_token' then Some (Inr (reports @ items))
                         else fetch_pages api (Suc i) page_token' (reports @ items)))))"

declare fetch_pages.simps [code]

definition fetch_all_sequence_reports :: "endpoint \<Rightarrow> (py_error + pyval list) option" where
  "fetch_all_sequence_reports api = fetch_pages api 0 PNone []"

section \<open>Mapping and sorting the records\<close>

text \<open>The dictionary comprehension that drops the excluded columns.\<close>

definition project :: "string list option \<Rightarrow> row \<Rightarrow> row" where
  "project exclude_columns chrom_data =
     (case exclude_columns of
        None \<Rightarrow> chrom_data
      | Some cols \<Rightarrow>
          if cols \<noteq> [] then filter (\<lambda>kv. fst kv \<notin> set cols) chrom_data else chrom_data)"

text \<open>The value of the \<^verbatim>\<open>'GC content (%)'\<close> entry.\<close>

definition gc_content :: "(string \<times> pyval) list \<Rightarrow> py_error + pyval" where
  "gc_content seq =
     (if truthy (dict_get seq ''gc_percent'' PNone)
      then py_round1 (dict_get seq ''gc_percent'' (PInt 0))
      else Inr PNone)"

text \<open>
  The body of the \<^verbatim>\<open>for seq in reports\<close> loop: \<open>Inr None\<close> is \<^verbatim>\<open>continue\<close>,
  \<open>Inr (Some r)\<close> the row appended. A record that is not a dictionary has no \<^verbatim>\<open>.get\<close>.
\<close>

fun map_seq :: "string \<Rightarrow> pyval \<Rightarrow> bool \<Rightarrow> string list option \<Rightarrow> pyval \<Rightarrow> py_error + row option" where
  "map_seq genome_id organism_name include_unplaced exclude_columns (PDict seq) =
     (let assigned_molecule_location_type =
            dict_get seq ''assigned_molecule_location_type'' (PStr '''');
          role = dict_get seq ''role'' (PStr '''');
          is_chromosome = (assigned_molecule_location_type = PStr ''Chromosome'');
          is_assembled = (role = PStr ''assembled-molecule'')
      in if \<not> is_chromosome \<and> \<not> (include_unplaced \<and> is_assembled) then Inr None
         else
           let chr_name = dict_get seq ''chr_name'' (dict_get seq ''assigned_molecule'' (PStr ''N/A''))
           in if \<not> include_unplaced \<and> chr_name = PStr ''Un'' then Inr None
              else
                (case gc_content seq of
                   Inl e \<Rightarrow> Inl e
                 | Inr gc \<Rightarrow>
                     Inr (Some (project exclude_columns
                       [(''GenomeID'', PStr genome_id),
                        (''Taxon'', organism_name),
                        (''Chromosome'', chr_name),
                        (''GenBank'', dict_get seq ''genbank_accession'' (PStr ''N/A'')),
                        (''RefSeq'', dict_get seq ''refseq_accession'' (PStr ''n/a'')),
                        (''Size (bp)'', dict_get seq ''length'' (PInt 0)),
                        (''GC content (%)'', gc)]))))"
| "map_seq genome_id organism_name include_unplaced exclude_columns _ = Inl AttributeError"

text \<open>The loop, with \<^verbatim>\<open>table_data\<close> as the accumulator; the first exception ends it.\<close>

fun build_table ::
  "string \<Rightarrow> pyval \<Rightarrow> bool \<Rightarrow> string list option \<Rightarrow> pyval list \<Rightarrow> row list \<Rightarrow> py_error + row list" where
  "build_table genome_id organism_name include_unplaced exclude_columns [] table_data =
     Inr table_data"
| "build_table genome_id organism_name include_unplaced exclude_columns (seq # reports) table_data =
     (case map_seq genome_id organism_name include_unplaced exclude_columns seq of
        Inl e \<Rightarrow> Inl e
      | Inr None \<Rightarrow>
          build_table genome_id organism_name include_unplaced exclude_columns reports table_data
      | Inr (Some chrom_data) \<Rightarrow>
          build_table genome_id organism_name include_unplaced exclude_columns reports
            (table_data @ [chrom_data]))"

text \<open>
  \<^verbatim>\<open>table_data.sort(key=sort_key)\<close>. The keys of all items are computed first, in order,
  and the first exception leaves the sort. The items are then sorted by \<^verbatim>\<open><\<close> on the keys,
  each one inserted from the left after the items that are not greater, so that items with
  equal keys keep their order. An exception of a comparison leaves the sort.
\<close>

fun keyed :: "row list \<Rightarrow> py_error + (key \<times> row) list" where
  "keyed [] = Inr []"
| "keyed (item # items) =
     (case sort_key item of
        Inl e \<Rightarrow> Inl e
      | Inr k \<Rightarrow> (case keyed items of Inl e \<Rightarrow> Inl e | Inr kis \<Rightarrow> Inr ((k, item) # kis)))"

fun insert_keyed :: "key \<times> row \<Rightarrow> (key \<times> row) list \<Rightarrow> py_error + (key \<times> row) list" where
  "insert_keyed x [] = Inr [x]"
| "insert_keyed x (y # ys) =
     (case tuple_lt (fst x) (fst y) of
        Inl e \<Rightarrow> Inl e
      | Inr True \<Rightarrow> Inr (x # y # ys)
      | Inr False \<Rightarrow> (case insert_keyed x ys of Inl e \<Rightarrow> Inl e | Inr zs \<Rightarrow> Inr (y # zs)))"

fun sort_keyed :: "(key \<times> row) list \<Rightarrow> (key \<times> row) list \<Rightarrow> py_error + (key \<times> row) list" where
  "sort_keyed sorted_part [] = Inr sorted_part"
| "sort_keyed sorted_part (x # xs) =
     (case insert_keyed x sorted_part of
        Inl e \<Rightarrow> Inl e
      | Inr sorted_part' \<Rightarrow> sort_keyed sorted_part' xs)"

definition sort_table :: "row list \<Rightarrow> py_error + row list" where
  "sort_table table_data =
     (case keyed table_data of
        Inl e \<Rightarrow> Inl e
      | Inr kis \<Rightarrow> (case sort_keyed [] kis of Inl e \<Rightarrow> Inl e | Inr s \<Rightarrow> Inr (map snd s)))"

text \<open>The body of the second \<^verbatim>\<open>try\<close> of \<^verbatim>\<open>fetch_chromosome_table\<close>: the loop, then the sort.\<close>

definition try_body ::
  "string \<Rightarrow> pyval \<Rightarrow> bool \<Rightarrow> string list option \<Rightarrow> pyval list \<Rightarrow> py_error + row list" where
  "try_body genome_id organism_name include_unplaced exclude_columns reports =
     (case build_table genome_id organism_name include_unplaced exclude_columns reports [] of
        Inl e \<Rightarrow> Inl e
      | Inr table_data \<Rightarrow> sort_table table_data)"

text \<open>
  The \<^verbatim>\<open>try\<close> with its handler \<^verbatim>\<open>except (KeyError, IndexError, TypeError)\<close>: these three
  give the empty table with the organism name; any other exception leaves the function.
\<close>

definition map_and_sort ::
  "string \<Rightarrow> pyval \<Rightarrow> bool \<Rightarrow> string list option \<Rightarrow> pyval list \<Rightarrow> py_error + (row list \<times> pyval)" where
  "map_and_sort genome_id organism_name include_unplaced exclude_columns reports =
     (case try_body genome_id organism_name include_unplaced exclude_columns reports of
        Inl e \<Rightarrow>
          if e = KeyError \<or> e = IndexError \<or> e = TypeError then Inr ([], organism_name)
          else Inl e
      | Inr table_data \<Rightarrow> Inr (table_data, organism_name))"

section \<open>The organism name and the whole fetch\<close>

text \<open>\<^verbatim>\<open>x[0]\<close>: the first element of a list, the first character of a string.\<close>

fun py_first :: "pyval \<Rightarrow> py_error + pyval" where
  "py_first (PList []) = Inl IndexError"
| "py_first (PList (x # xs)) = Inr x"
| "py_first (PStr []) = Inl IndexError"
| "py_first (PStr (c # cs)) = Inr (PStr [c])"
| "py_first (PDict kvs) = Inl KeyError"
| "py_first _ = Inl TypeError"

text \<open>The body of the first \<^verbatim>\<open>try\<close> after the request, on the parsed dataset report.\<close>

definition organism_of :: "pyval \<Rightarrow> py_error + pyval" where
  "organism_of dataset_data =
     (case py_get dataset_data ''reports'' PNone of
        Inl e \<Rightarrow> Inl e
      | Inr reports \<Rightarrow>
          if truthy reports then
            (case py_first reports of
               Inl e \<Rightarrow> Inl e
             | Inr r \<Rightarrow>
                 (case py_get r ''organism'' (PDict []) of
                    Inl e \<Rightarrow> Inl e
                  | Inr organism_info \<Rightarrow> py_get organism_info ''organism_name'' (PStr ''Unknown'')))
          else Inr (PStr ''Unknown''))"

text \<open>\<^verbatim>\<open>except Exception\<close>: whatever fails, the name stays \<^verbatim>\<open>"Unknown"\<close>.\<close>

definition resolve_organism_name :: "response \<Rightarrow> pyval" where
  "resolve_organism_name dataset_response =
     (case dataset_response of
        RequestException \<Rightarrow> PStr ''Unknown''
      | Json dataset_data \<Rightarrow>
          (case organism_of dataset_data of Inl e \<Rightarrow> PStr ''Unknown'' | Inr name \<Rightarrow> name))"

text \<open>
  \<^verbatim>\<open>fetch_chromosome_table\<close>, given the two endpoints it calls: the paginated sequence
  reports and the dataset report. None: the pagination does not end.
\<close>

definition fetch_chromosome_table ::
  "endpoint \<Rightarrow> response \<Rightarrow> string \<Rightarrow> bool \<Rightarrow> string list option \<Rightarrow>
   (py_error + (row list \<times> pyval)) option" where
  "fetch_chromosome_table sequence_reports dataset_report genome_id include_unplaced exclude_columns =
     (case fetch_all_sequence_reports sequence_reports of
        None \<Rightarrow> None
      | Some (Inl e) \<Rightarrow> Some (Inr ([], PStr ''Unknown''))
      | Some (Inr reports) \<Rightarrow>
          if reports = [] then Some (Inr ([], PStr ''Unknown''))
          else Some (map_and_sort genome_id (resolve_organism_name dataset_report)
                       include_unplaced exclude_columns reports))"

section \<open>Notions the properties are stated with\<close>

text \<open>A column is excluded when the exclusion list is given and names it.\<close>

definition excluded :: "string list option \<Rightarrow> string \<Rightarrow> bool" where
  "excluded exclude_columns k =
     (case exclude_columns of None \<Rightarrow> False | Some cols \<Rightarrow> k \<in> set cols)"

text \<open>
  The label of a record: the value under \<^verbatim>\<open>chr_name\<close> when the key is present, otherwise
  the one under \<^verbatim>\<open>assigned_molecule\<close>, otherwise \<^verbatim>\<open>"N/A"\<close>.
\<close>

definition resolved_label :: "(string \<times> pyval) list \<Rightarrow> pyval" where
  "resolved_label seq =
     (case map_of seq ''chr_name'' of
        Some v \<Rightarrow> v
      | None \<Rightarrow> (case map_of seq ''assigned_molecule'' of Some v \<Rightarrow> v | None \<Rightarrow> PStr ''N/A''))"

text \<open>The inclusion rule with its secondary exclusion of the label \<^verbatim>\<open>"Un"\<close>.\<close>

definition included :: "bool \<Rightarrow> (string \<times> pyval) list \<Rightarrow> bool" where
  "included include_unplaced seq =
     ((map_of seq ''assigned_molecule_location_type'' = Some (PStr ''Chromosome'')
        \<or> (include_unplaced \<and> map_of seq ''role'' = Some (PStr ''assembled-molecule'')))
      \<and> \<not> (\<not> include_unplaced \<and> resolved_label seq = PStr ''Un''))"

text \<open>
  \<open>rounded_to_tenth v g\<close>: \<open>g\<close> is \<open>v\<close> rounded to one decimal place. An integer is its
  own rounding; for a float, \<open>g\<close> is a multiple of one tenth at most one twentieth away.
\<close>

fun rounded_to_tenth :: "pyval \<Rightarrow> pyval \<Rightarrow> bool" where
  "rounded_to_tenth (PInt n) g = (g = PInt n)"
| "rounded_to_tenth (PBool b) g = (g = PInt (if b then 1 else 0))"
| "rounded_to_tenth (PFloat q) g =
     (case g of
        PFloat r \<Rightarrow> 10 * r = of_int \<lfloor>10 * r\<rfloor> \<and> \<bar>r - q\<bar> \<le> 1 / 20
      | _ \<Rightarrow> False)"
| "rounded_to_tenth _ g = False"

fun is_number :: "pyval \<Rightarrow> bool" where
  "is_number (PInt n) = True"
| "is_number (PBool b) = True"
| "is_number (PFloat q) = True"
| "is_number _ = False"

text \<open>The GC value of a record is absent, false, or a number.\<close>

definition gc_well_typed :: "(string \<times> pyval) list \<Rightarrow> bool" where
  "gc_well_typed seq =
     (case map_of seq ''gc_percent'' of None \<Rightarrow> True | Some v \<Rightarrow> \<not> truthy v \<or> is_number v)"

text \<open>A raw record of the data model: a dictionary.\<close>

fun is_dict :: "pyval \<Rightarrow> bool" where
  "is_dict (PDict d) = True"
| "is_dict _ = False"

text \<open>A row without one column; the other entries stay, in their order.\<close>

definition drop_column :: "string \<Rightarrow> row \<Rightarrow> row" where
  "drop_column c r = filter (\<lambda>kv. fst kv \<noteq> c) r"

text \<open>
  The header \<^verbatim>\<open>export_to_csv\<close> writes: the keys of the first row, and nothing for an
  empty table.
\<close>

definition csv_headers :: "row list \<Rightarrow> string list option" where
  "csv_headers table_data = (case table_data of [] \<Rightarrow> None | r # rs \<Rightarrow> Some (map fst r))"

text \<open>
  The run of the pagination loop against an endpoint: \<open>token_at api i\<close> is the value of
  \<^verbatim>\<open>page_token\<close> when the \<open>i\<close>-th request is made, \<open>page api i\<close> the answer to that request.
\<close>

fun token_at :: "endpoint \<Rightarrow> nat \<Rightarrow> pyval" where
  "token_at api 0 = PNone"
| "token_at api (Suc i) =
     (case api i (token_param (token_at api i)) of
        RequestException \<Rightarrow> PNone
      | Json data \<Rightarrow>
          (case py_get data ''next_page_token'' PNone of Inl e \<Rightarrow> PNone | Inr t \<Rightarrow> t))"

definition page :: "endpoint \<Rightarrow> nat \<Rightarrow> response" where
  "page api i = api i (token_param (token_at api i))"

text \<open>
  The entries a response carries under \<^verbatim>\<open>"reports"\<close> (none for a failed request or a body
  the loop cannot read), and whether it carries a continuation token.
\<close>

definition page_items :: "response \<Rightarrow> pyval list option" where
  "page_items r =
     (case r of
        RequestException \<Rightarrow> None
      | Json data \<Rightarrow>
          (case py_get data ''reports'' (PList []) of
             Inl e \<Rightarrow> None
           | Inr v \<Rightarrow> (case py_iter v of Inl e \<Rightarrow> None | Inr items \<Rightarrow> Some items)))"

definition items_of :: "response \<Rightarrow> pyval list" where
  "items_of r = (case page_items r of None \<Rightarrow> [] | Some items \<Rightarrow> items)"

definition has_token :: "response \<Rightarrow> bool" where
  "has_token r =
     (case r of
        RequestException \<Rightarrow> False
      | Json data \<Rightarrow>
          (case py_get data ''next_page_token'' PNone of Inl e \<Rightarrow> False | Inr t \<Rightarrow> truthy t))"

text \<open>
  The normalisation as the specification words it: a leading \<^verbatim>\<open>"chr"\<close> or \<^verbatim>\<open>"Chr"\<close> is
  stripped, and the remainder is uppercased.
\<close>

definition spec_normalize :: "string \<Rightarrow> string" where
  "spec_normalize s =
     upper (if take 3 s = ''chr'' \<or> take 3 s = ''Chr'' then drop 3 s else s)"

text \<open>\<open>occurs pat s\<close>: the pattern stands somewhere in the string.\<close>

fun occurs :: "string \<Rightarrow> string \<Rightarrow> bool" where
  "occurs pat [] = (pat = [])"
| "occurs pat (c # cs) = (take (length pat) (c # cs) = pat \<or> occurs pat cs)"

text \<open>
  A normalised label is too long when it is letters followed by more digits than \<^verbatim>\<open>int()\<close>
  converts.
\<close>

definition too_long :: "string \<Rightarrow> bool" where
  "too_long chr_name =
     (case re_match chr_name of
        None \<Rightarrow> False
      | Some (prefix, num) \<Rightarrow> int_max_str_digits < length num)"

text \<open>
  The three shapes of key that \<^verbatim>\<open>sort_key\<close> returns: \<open>(0, n, "")\<close>, \<open>(1, prefix, n)\<close> and
  \<open>(2, name, 0)\<close>; and the place of such a key in one linear order.
\<close>

fun well_formed :: "key \<Rightarrow> bool" where
  "well_formed (AInt t, AInt n, AStr s) = (t = 0 \<and> s = [])"
| "well_formed (AInt t, AStr p, AInt n) = (t = 1 \<or> (t = 2 \<and> n = 0))"
| "well_formed _ = False"

fun rank :: "key \<Rightarrow> int \<times> int \<times> string \<times> int" where
  "rank (AInt t, AInt n, c) = (t, n, [], 0)"
| "rank (AInt t, AStr p, AInt n) = (t, 0, p, n)"
| "rank _ = (0, 0, [], 0)"

text \<open>
  \<open>not_after x y\<close>: both rows have keys, and the key of \<open>y\<close> is not smaller than the
  key of \<open>x\<close>. A table is ordered when no row comes after a row with a greater key.
\<close>

definition not_after :: "row \<Rightarrow> row \<Rightarrow> bool" where
  "not_after x y =
     (case sort_key x of
        Inl e \<Rightarrow> False
      | Inr kx \<Rightarrow> (case sort_key y of Inl e \<Rightarrow> False | Inr ky \<Rightarrow> tuple_lt ky kx = Inr False))"

definition ordered :: "row list \<Rightarrow> bool" where
  "ordered rows = sorted_wrt not_after rows"

text \<open>Where the insertion puts an item: after the items whose keys are not greater.\<close>

definition place :: "key \<times> row \<Rightarrow> (key \<times> row) list \<Rightarrow> (key \<times> row) list" where
  "place x ys =
     takeWhile (\<lambda>y. rank (fst y) \<le> rank (fst x)) ys
       @ x # dropWhile (\<lambda>y. rank (fst y) \<le> rank (fst x)) ys"

section \<open>Mapping one record\<close>

lemma map_of_filter_fst:
  "map_of (filter (\<lambda>kv. fst kv \<notin> S) xs) k = (if k \<in> S then None else map_of xs k)"
  by (induction xs) auto

lemma map_of_project:
  "map_of (project exclude_columns r) k =
     (if excluded exclude_columns k then None else map_of r k)"
  by (auto simp: project_def excluded_def map_of_filter_fst split: option.splits)

lemma map_seq_cases:
  "map_seq genome_id organism_name include_unplaced exclude_columns (PDict seq) =
     (if \<not> included include_unplaced seq then Inr None
      else case gc_content seq of
             Inl e \<Rightarrow> Inl e
           | Inr gc \<Rightarrow>
               Inr (Some (project exclude_columns
                 [(''GenomeID'', PStr genome_id),
                  (''Taxon'', organism_name),
                  (''Chromosome'', resolved_label seq),
                  (''GenBank'', dict_get seq ''genbank_accession'' (PStr ''N/A'')),
                  (''RefSeq'', dict_get seq ''refseq_accession'' (PStr ''n/a'')),
                  (''Size (bp)'', dict_get seq ''length'' (PInt 0)),
                  (''GC content (%)'', gc)])))"
  by (auto simp: included_def resolved_label_def dict_get_def Let_def
      split: option.splits sum.splits)

lemma round_half_even_bound: "\<bar>of_int (round_half_even y) - y\<bar> \<le> 1 / 2"
proof -
  have "of_int \<lfloor>y\<rfloor> \<le> y" "y < of_int \<lfloor>y\<rfloor> + 1" by linarith+
  then show ?thesis
    by (auto simp: round_half_even_def Let_def)
qed

lemma py_round1_rounded:
  assumes "is_number v"
  shows "\<exists>g. py_round1 v = Inr g \<and> rounded_to_tenth v g"
proof (cases v)
  case (PFloat q)
  have "\<bar>of_int (round_half_even (10 * q)) - 10 * q\<bar> \<le> 1 / 2"
    by (rule round_half_even_bound)
  then have "\<bar>of_int (round_half_even (10 * q)) / 10 - q\<bar> \<le> 1 / 20"
    by (simp add: abs_le_iff field_simps)
  with PFloat show ?thesis by simp
qed (use assms in auto)

lemma py_round1_not_number: "\<not> is_number v \<Longrightarrow> py_round1 v = Inl TypeError"
  by (cases v) auto

lemma gc_content_cases:
  "gc_content seq =
     (case map_of seq ''gc_percent'' of
        None \<Rightarrow> Inr PNone
      | Some v \<Rightarrow> if truthy v then py_round1 v else Inr PNone)"
  by (simp add: gc_content_def dict_get_def split: option.splits)

lemma gc_content_well_typed: "gc_well_typed seq \<Longrightarrow> \<exists>gc. gc_content seq = Inr gc"
  using py_round1_rounded
  by (auto simp: gc_content_cases gc_well_typed_def split: option.splits)

lemma map_of_mapped_row:
  "map_of (project exclude_columns
                 [(''GenomeID'', a), (''Taxon'', b), (''Chromosome'', c), (''GenBank'', d),
                  (''RefSeq'', e), (''Size (bp)'', f), (''GC content (%)'', gc)]) ''GC content (%)''
    = (if excluded exclude_columns ''GC content (%)'' then None else Some gc)"
  by (simp add: map_of_project)

text \<open>
  C4. For every kept record, the GC content field of the row is the raw \<^verbatim>\<open>gc_percent\<close>
  rounded to one decimal place when that value is present and true, and \<^verbatim>\<open>None\<close> when
  it is absent or false; a record whose \<^verbatim>\<open>gc_percent\<close> is 0 has the field \<^verbatim>\<open>None\<close>.
  (A true value that is not a number has no rounding: the mapping raises TypeError and no
  row is made.)
\<close>

theorem C4_gc_content:
  assumes "included include_unplaced seq"
    and "\<not> excluded exclude_columns ''GC content (%)''"
  shows "(case map_of seq ''gc_percent'' of
            None \<Rightarrow>
              (\<exists>chrom_data.
                 map_seq genome_id organism_name include_unplaced exclude_columns (PDict seq)
                   = Inr (Some chrom_data)
                 \<and> map_of chrom_data ''GC content (%)'' = Some PNone)
          | Some v \<Rightarrow>
              if \<not> truthy v then
                (\<exists>chrom_data.
                   map_seq genome_id organism_name include_unplaced exclude_columns (PDict seq)
                     = Inr (Some chrom_data)
                   \<and> map_of chrom_data ''GC content (%)'' = Some PNone)
              else if is_number v then
                (\<exists>chrom_data g.
                   map_seq genome_id organism_name include_unplaced exclude_columns (PDict seq)
                     = Inr (Some chrom_data)
                   \<and> map_of chrom_data ''GC content (%)'' = Some g \<and> rounded_to_tenth v g)
              else
                map_seq genome_id organism_name include_unplaced exclude_columns (PDict seq)
                  = Inl TypeError)"
proof (cases "map_of seq ''gc_percent''")
  case None
  then have "gc_content seq = Inr PNone" by (simp add: gc_content_cases)
  with None assms show ?thesis
    unfolding map_seq_cases by (simp add: map_of_mapped_row)
next
  case (Some v)
  show ?thesis
  proof (cases "truthy v")
    case False
    with Some have "gc_content seq = Inr PNone" by (simp add: gc_content_cases)
    with Some False assms show ?thesis
      unfolding map_seq_cases by (simp add: map_of_mapped_row)
  next
    case True
    show ?thesis
    proof (cases "is_number v")
      case n: True
      from py_round1_rounded [OF n] obtain g where g: "py_round1 v = Inr g" "rounded_to_tenth v g"
        by blast
      with Some True have "gc_content seq = Inr g" by (simp add: gc_content_cases)
      with Some True n g assms show ?thesis
        unfolding map_seq_cases by (simp add: map_of_mapped_row)
    next
      case n: False
      with Some True have "gc_content seq = Inl TypeError"
        by (simp add: gc_content_cases py_round1_not_number)
      with Some True n assms show ?thesis
        unfolding map_seq_cases by simp
    qed
  qed
qed

theorem C4_gc_content_witness:
  "(\<exists>chrom_data g.
      map_seq ''GCA_1'' (PStr ''Homo sapiens'') False None
        (PDict [(''assigned_molecule_location_type'', PStr ''Chromosome''),
                (''chr_name'', PStr ''1''), (''gc_percent'', PFloat (4125 / 100))])
        = Inr (Some chrom_data)
      \<and> map_of chrom_data ''GC content (%)'' = Some g
      \<and> rounded_to_tenth (PFloat (4125 / 100)) g)
   \<and> (\<exists>chrom_data.
      map_seq ''GCA_1'' (PStr ''Homo sapiens'') False None
        (PDict [(''assigned_molecule_location_type'', PStr ''Chromosome''),
                (''chr_name'', PStr ''1''), (''gc_percent'', PInt 0)])
        = Inr (Some chrom_data)
      \<and> map_of chrom_data ''GC content (%)'' = Some PNone)"
proof -
  have i1: "included False [(''assigned_molecule_location_type'', PStr ''Chromosome''),
                (''chr_name'', PStr ''1''), (''gc_percent'', PFloat (4125 / 100))]"
    by (simp add: included_def resolved_label_def)
  have i2: "included False [(''assigned_molecule_location_type'', PStr ''Chromosome''),
                (''chr_name'', PStr ''1''), (''gc_percent'', PInt 0)]"
    by (simp add: included_def resolved_label_def)
  have e: "\<not> excluded None ''GC content (%)''"
    by (simp add: excluded_def)
  from C4_gc_content [OF i1 e, of "''GCA_1''" "PStr ''Homo sapiens''"]
       C4_gc_content [OF i2 e, of "''GCA_1''" "PStr ''Homo sapiens''"]
  show ?thesis by simp
qed

text \<open>
  C8. Every kept record (one that passes the inclusion rule and whose GC value is absent,
  false or a number) yields a row, and in that row the Chromosome field is the value of
  \<^verbatim>\<open>chr_name\<close> when that key is present, otherwise the value of \<^verbatim>\<open>assigned_molecule\<close> when
  present, otherwise \<^verbatim>\<open>"N/A"\<close>; the GenBank field is the value of \<^verbatim>\<open>genbank_accession\<close> and
  defaults to \<^verbatim>\<open>"N/A"\<close>, the RefSeq field is the value of \<^verbatim>\<open>refseq_accession\<close> and
  defaults to the lowercase \<^verbatim>\<open>"n/a"\<close>, and the size is the value of \<^verbatim>\<open>length\<close> and defaults
  to 0. (Each field is read from the row where the column is not excluded.)
\<close>

theorem C8_field_defaults:
  assumes "included include_unplaced seq" and "gc_well_typed seq"
  shows "\<exists>chrom_data.
           map_seq genome_id organism_name include_unplaced exclude_columns (PDict seq)
             = Inr (Some chrom_data)
         \<and> (\<not> excluded exclude_columns ''Chromosome'' \<longrightarrow>
              map_of chrom_data ''Chromosome'' =
                Some (case map_of seq ''chr_name'' of
                        Some v \<Rightarrow> v
                      | None \<Rightarrow> (case map_of seq ''assigned_molecule'' of
                                   Some v \<Rightarrow> v | None \<Rightarrow> PStr ''N/A'')))
         \<and> (\<not> excluded exclude_columns ''GenBank'' \<longrightarrow>
              map_of chrom_data ''GenBank'' =
                Some (case map_of seq ''genbank_accession'' of
                        Some v \<Rightarrow> v | None \<Rightarrow> PStr ''N/A''))
         \<and> (\<not> excluded exclude_columns ''RefSeq'' \<longrightarrow>
              map_of chrom_data ''RefSeq'' =
                Some (case map_of seq ''refseq_accession'' of
                        Some v \<Rightarrow> v | None \<Rightarrow> PStr ''n/a''))
         \<and> (\<not> excluded exclude_columns ''Size (bp)'' \<longrightarrow>
              map_of chrom_data ''Size (bp)'' =
                Some (case map_of seq ''length'' of Some v \<Rightarrow> v | None \<Rightarrow> PInt 0))"
proof -
  from gc_content_well_typed [OF assms(2)] obtain gc where gc: "gc_content seq = Inr gc"
    by blast
  let ?row = "project exclude_columns
                 [(''GenomeID'', PStr genome_id),
                  (''Taxon'', organism_name),
                  (''Chromosome'', resolved_label seq),
                  (''GenBank'', dict_get seq ''genbank_accession'' (PStr ''N/A'')),
                  (''RefSeq'', dict_get seq ''refseq_accession'' (PStr ''n/a'')),
                  (''Size (bp)'', dict_get seq ''length'' (PInt 0)),
                  (''GC content (%)'', gc)]"
  have m: "map_seq genome_id organism_name include_unplaced exclude_columns (PDict seq)
             = Inr (Some ?row)"
    unfolding map_seq_cases using assms(1) gc by simp
  have f: "(\<not> excluded exclude_columns ''Chromosome'' \<longrightarrow>
              map_of ?row ''Chromosome'' =
                Some (case map_of seq ''chr_name'' of
                        Some v \<Rightarrow> v
                      | None \<Rightarrow> (case map_of seq ''assigned_molecule'' of
                                   Some v \<Rightarrow> v | None \<Rightarrow> PStr ''N/A'')))
         \<and> (\<not> excluded exclude_columns ''GenBank'' \<longrightarrow>
              map_of ?row ''GenBank'' =
                Some (case map_of seq ''genbank_accession'' of
                        Some v \<Rightarrow> v | None \<Rightarrow> PStr ''N/A''))
         \<and> (\<not> excluded exclude_columns ''RefSeq'' \<longrightarrow>
              map_of ?row ''RefSeq'' =
                Some (case map_of seq ''refseq_accession'' of
                        Some v \<Rightarrow> v | None \<Rightarrow> PStr ''n/a''))
         \<and> (\<not> excluded exclude_columns ''Size (bp)'' \<longrightarrow>
              map_of ?row ''Size (bp)'' =
                Some (case map_of seq ''length'' of Some v \<Rightarrow> v | None \<Rightarrow> PInt 0))"
    by (simp add: map_of_project resolved_label_def dict_get_def)
  from m f show ?thesis by blast
qed

theorem C8_field_defaults_witness:
  "(\<exists>chrom_data.
      map_seq ''GCA_1'' (PStr ''Homo sapiens'') False None
        (PDict [(''assigned_molecule_location_type'', PStr ''Chromosome''),
                (''chr_name'', PStr ''1''), (''assigned_molecule'', PStr ''one''),
                (''genbank_accession'', PStr ''CM000663.2''),
                (''refseq_accession'', PStr ''NC_000001.11''),
                (''length'', PInt 248956422)])
        = Inr (Some chrom_data)
      \<and> map_of chrom_data ''Chromosome'' = Some (PStr ''1'')
      \<and> map_of chrom_data ''GenBank'' = Some (PStr ''CM000663.2'')
      \<and> map_of chrom_data ''RefSeq'' = Some (PStr ''NC_000001.11'')
      \<and> map_of chrom_data ''Size (bp)'' = Some (PInt 248956422))
   \<and> (\<exists>chrom_data.
      map_seq ''GCA_1'' (PStr ''Homo sapiens'') False None
        (PDict [(''assigned_molecule_location_type'', PStr ''Chromosome''),
                (''assigned_molecule'', PStr ''7'')])
        = Inr (Some chrom_data)
      \<and> map_of chrom_data ''Chromosome'' = Some (PStr ''7'')
      \<and> map_of chrom_data ''GenBank'' = Some (PStr ''N/A'')
      \<and> map_of chrom_data ''RefSeq'' = Some (PStr ''n/a'')
      \<and> map_of chrom_data ''Size (bp)'' = Some (PInt 0))
   \<and> (\<exists>chrom_data.
      map_seq ''GCA_1'' (PStr ''Homo sapiens'') False None
        (PDict [(''assigned_molecule_location_type'', PStr ''Chromosome'')])
        = Inr (Some chrom_data)
      \<and> map_of chrom_data ''Chromosome'' = Some (PStr ''N/A''))"
proof -
  have i1: "included False
              [(''assigned_molecule_location_type'', PStr ''Chromosome''),
               (''chr_name'', PStr ''1''), (''assigned_molecule'', PStr ''one''),
               (''genbank_accession'', PStr ''CM000663.2''),
               (''refseq_accession'', PStr ''NC_000001.11''),
               (''length'', PInt 248956422)]"
    by (simp add: included_def resolved_label_def)
  have w1: "gc_well_typed
              [(''assigned_molecule_location_type'', PStr ''Chromosome''),
               (''chr_name'', PStr ''1''), (''assigned_molecule'', PStr ''one''),
               (''genbank_accession'', PStr ''CM000663.2''),
               (''refseq_accession'', PStr ''NC_000001.11''),
               (''length'', PInt 248956422)]"
    by (simp add: gc_well_typed_def)
  have i2: "included False
              [(''assigned_molecule_location_type'', PStr ''Chromosome''),
               (''assigned_molecule'', PStr ''7'')]"
    by (simp add: included_def resolved_label_def)
  have w2: "gc_well_typed
              [(''assigned_molecule_location_type'', PStr ''Chromosome''),
               (''assigned_molecule'', PStr ''7'')]"
    by (simp add: gc_well_typed_def)
  have i3: "included False [(''assigned_molecule_location_type'', PStr ''Chromosome'')]"
    by (simp add: included_def resolved_label_def)
  have w3: "gc_well_typed [(''assigned_molecule_location_type'', PStr ''Chromosome'')]"
    by (simp add: gc_well_typed_def)
  have e: "\<not> excluded None k" for k
    by (simp add: excluded_def)
  note f1 = C8_field_defaults [OF i1 w1, of "''GCA_1''" "PStr ''Homo sapiens''" None]
  note f2 = C8_field_defaults [OF i2 w2, of "''GCA_1''" "PStr ''Homo sapiens''" None]
  note f3 = C8_field_defaults [OF i3 w3, of "''GCA_1''" "PStr ''Homo sapiens''" None]
  have g1: "\<exists>chrom_data.
      map_seq ''GCA_1'' (PStr ''Homo sapiens'') False None
        (PDict [(''assigned_molecule_location_type'', PStr ''Chromosome''),
                (''chr_name'', PStr ''1''), (''assigned_molecule'', PStr ''one''),
                (''genbank_accession'', PStr ''CM000663.2''),
                (''refseq_accession'', PStr ''NC_000001.11''),
                (''length'', PInt 248956422)])
        = Inr (Some chrom_data)
      \<and> map_of chrom_data ''Chromosome'' = Some (PStr ''1'')
      \<and> map_of chrom_data ''GenBank'' = Some (PStr ''CM000663.2'')
      \<and> map_of chrom_data ''RefSeq'' = Some (PStr ''NC_000001.11'')
      \<and> map_of chrom_data ''Size (bp)'' = Some (PInt 248956422)"
    using f1 by (simp add: e del: map_seq.simps)
  have g2: "\<exists>chrom_data.
      map_seq ''GCA_1'' (PStr ''Homo sapiens'') False None
        (PDict [(''assigned_molecule_location_type'', PStr ''Chromosome''),
                (''assigned_molecule'', PStr ''7'')])
        = Inr (Some chrom_data)
      \<and> map_of chrom_data ''Chromosome'' = Some (PStr ''7'')
      \<and> map_of chrom_data ''GenBank'' = Some (PStr ''N/A'')
      \<and> map_of chrom_data ''RefSeq'' = Some (PStr ''n/a'')
      \<and> map_of chrom_data ''Size (bp)'' = Some (PInt 0)"
    using f2 by (simp add: e del: map_seq.simps)
  have g3: "\<exists>chrom_data.
      map_seq ''GCA_1'' (PStr ''Homo sapiens'') False None
        (PDict [(''assigned_molecule_location_type'', PStr ''Chromosome'')])
        = Inr (Some chrom_data)
      \<and> map_of chrom_data ''Chromosome'' = Some (PStr ''N/A'')"
    using f3 by (auto simp add: e simp del: map_seq.simps)
  from g1 g2 g3 show ?thesis by (intro conjI)
qed

section \<open>The table: loop and sort\<close>

lemma build_table_acc:
  "build_table g organism i ex reports acc =
     (case build_table g organism i ex reports [] of
        Inl e \<Rightarrow> Inl e
      | Inr t \<Rightarrow> Inr (acc @ t))"
proof (induction reports arbitrary: acc)
  case Nil
  show ?case by simp
next
  case (Cons seq reports)
  show ?case
  proof (cases "map_seq g organism i ex seq")
    case (Inl e)
    then show ?thesis by simp
  next
    case (Inr res)
    show ?thesis
    proof (cases res)
      case None
      with Inr Cons.IH [of acc] show ?thesis by simp
    next
      case (Some r)
      with Inr Cons.IH [of "acc @ [r]"] Cons.IH [of "[r]"] show ?thesis
        by (simp split: sum.splits)
    qed
  qed
qed

lemma build_table_Cons:
  "build_table g organism i ex (seq # reports) [] =
     (case map_seq g organism i ex seq of
        Inl e \<Rightarrow> Inl e
      | Inr res \<Rightarrow>
          (case build_table g organism i ex reports [] of
             Inl e \<Rightarrow> Inl e
           | Inr t \<Rightarrow> Inr ((case res of None \<Rightarrow> [] | Some r \<Rightarrow> [r]) @ t)))"
proof (cases "map_seq g organism i ex seq")
  case (Inl e)
  then show ?thesis by simp
next
  case (Inr res)
  show ?thesis
  proof (cases res)
    case None
    with Inr show ?thesis by (simp split: sum.splits)
  next
    case (Some r)
    have "build_table g organism i ex (seq # reports) [] = build_table g organism i ex reports [r]"
      using Inr Some by simp
    also have "\<dots> = (case build_table g organism i ex reports [] of
        Inl e \<Rightarrow> Inl e
      | Inr t \<Rightarrow> Inr ([r] @ t))"
      by (rule build_table_acc)
    finally show ?thesis using Inr Some by (simp split: sum.splits)
  qed
qed

lemma build_table_rows:
  "build_table g organism i ex reports [] = Inr table \<Longrightarrow>
   set table = {r. \<exists>seq \<in> set reports. map_seq g organism i ex seq = Inr (Some r)}"
proof (induction reports arbitrary: table)
  case Nil
  then show ?case by simp
next
  case (Cons seq reports)
  from Cons.prems obtain res t where
    m: "map_seq g organism i ex seq = Inr res"
    and t: "build_table g organism i ex reports [] = Inr t"
    and tab: "table = (case res of None \<Rightarrow> [] | Some r \<Rightarrow> [r]) @ t"
    unfolding build_table_Cons by (auto split: sum.splits)
  from Cons.IH [OF t] m tab show ?case
    by (cases res) auto
qed

lemma build_table_error:
  "build_table g organism i ex reports [] = Inl e \<Longrightarrow>
   \<exists>seq \<in> set reports. map_seq g organism i ex seq = Inl e"
proof (induction reports)
  case Nil
  then show ?case by simp
next
  case (Cons seq reports)
  then show ?case
    unfolding build_table_Cons by (auto split: sum.splits)
qed

lemma build_table_prefix_error:
  assumes "\<forall>x \<in> set pre. \<exists>res. map_seq g organism i ex x = Inr res"
    and "map_seq g organism i ex r = Inl e"
  shows "build_table g organism i ex (pre @ r # post) [] = Inl e"
  using assms(1)
proof (induction pre)
  case Nil
  with assms(2) show ?case by simp
next
  case (Cons x pre)
  then obtain res where "map_seq g organism i ex x = Inr res" by auto
  with Cons show ?case
    unfolding append_Cons build_table_Cons by simp
qed

lemma insert_keyed_set:
  "insert_keyed x ys = Inr zs \<Longrightarrow> set zs = insert x (set ys)"
proof (induction ys arbitrary: zs)
  case Nil
  then show ?case by auto
next
  case (Cons y ys)
  show ?case
  proof (cases "tuple_lt (fst x) (fst y)")
    case (Inl e)
    with Cons.prems show ?thesis by simp
  next
    case (Inr b)
    show ?thesis
    proof (cases b)
      case True
      with Inr Cons.prems have "zs = x # y # ys" by simp
      then show ?thesis by auto
    next
      case False
      with Inr Cons.prems obtain zs' where
        i: "insert_keyed x ys = Inr zs'" and z: "zs = y # zs'"
        by (cases "insert_keyed x ys") simp_all
      from Cons.IH [OF i] z show ?thesis by auto
    qed
  qed
qed

lemma sort_keyed_set:
  "sort_keyed acc xs = Inr zs \<Longrightarrow> set zs = set acc \<union> set xs"
proof (induction xs arbitrary: acc zs)
  case Nil
  then show ?case by simp
next
  case (Cons x xs)
  from Cons.prems obtain acc' where
    a: "insert_keyed x acc = Inr acc'" and s: "sort_keyed acc' xs = Inr zs"
    by (auto split: sum.splits)
  from Cons.IH [OF s] insert_keyed_set [OF a] show ?case by auto
qed

lemma keyed_snd: "keyed rows = Inr kis \<Longrightarrow> map snd kis = rows"
  by (induction rows arbitrary: kis) (auto split: sum.splits)

lemma sort_table_set:
  assumes "sort_table table = Inr rows"
  shows "set rows = set table"
proof -
  from assms obtain kis s where
    k: "keyed table = Inr kis" and s: "sort_keyed [] kis = Inr s" and r: "rows = map snd s"
    by (auto simp: sort_table_def split: sum.splits)
  from sort_keyed_set [OF s] have "set s = set kis" by simp
  then have "set (map snd s) = set (map snd kis)" by simp
  with keyed_snd [OF k] r show ?thesis by simp
qed

lemma map_seq_SomeD:
  assumes "map_seq g organism i ex seq = Inr (Some r)"
  shows "\<exists>d gc. seq = PDict d \<and> included i d \<and> gc_content d = Inr gc \<and>
           r = project ex
                 [(''GenomeID'', PStr g),
                  (''Taxon'', organism),
                  (''Chromosome'', resolved_label d),
                  (''GenBank'', dict_get d ''genbank_accession'' (PStr ''N/A'')),
                  (''RefSeq'', dict_get d ''refseq_accession'' (PStr ''n/a'')),
                  (''Size (bp)'', dict_get d ''length'' (PInt 0)),
                  (''GC content (%)'', gc)]"
proof (cases seq)
  case (PDict d)
  with assms show ?thesis
    unfolding PDict map_seq_cases by (simp split: if_splits sum.splits)
qed (use assms in simp_all)

lemma mapped_row_label:
  assumes "map_seq g organism False ex seq = Inr (Some r)"
  shows "map_of r ''Chromosome'' \<noteq> Some (PStr ''Un'')"
proof -
  from map_seq_SomeD [OF assms] obtain d gc where
    inc: "included False d"
    and r: "r = project ex
                 [(''GenomeID'', PStr g),
                  (''Taxon'', organism),
                  (''Chromosome'', resolved_label d),
                  (''GenBank'', dict_get d ''genbank_accession'' (PStr ''N/A'')),
                  (''RefSeq'', dict_get d ''refseq_accession'' (PStr ''n/a'')),
                  (''Size (bp)'', dict_get d ''length'' (PInt 0)),
                  (''GC content (%)'', gc)]"
    by blast
  from inc have "resolved_label d \<noteq> PStr ''Un''" by (simp add: included_def)
  then show ?thesis
    unfolding r by (simp add: map_of_project)
qed

text \<open>
  C1. A record is skipped exactly when the inclusion rule fails: it is kept if and only if
  its \<^verbatim>\<open>assigned_molecule_location_type\<close> is \<^verbatim>\<open>"Chromosome"\<close>, or unplaced sequences are
  included and its \<^verbatim>\<open>role\<close> is \<^verbatim>\<open>"assembled-molecule"\<close>, and it is not the case that
  unplaced sequences are left out and its resolved label is \<^verbatim>\<open>"Un"\<close>. A kept record
  whose GC value is absent, false or a number yields a row. Consequently, when unplaced
  sequences are left out, no row of the result has the Chromosome label \<^verbatim>\<open>"Un"\<close>.
\<close>

theorem C1_inclusion_rule:
  "(map_seq genome_id organism_name include_unplaced exclude_columns (PDict seq) = Inr None
      \<longleftrightarrow> \<not> included include_unplaced seq)
   \<and> (gc_well_typed seq \<longrightarrow>
        ((\<exists>chrom_data.
            map_seq genome_id organism_name include_unplaced exclude_columns (PDict seq)
              = Inr (Some chrom_data))
         \<longleftrightarrow> included include_unplaced seq))
   \<and> (map_and_sort genome_id organism_name False exclude_columns reports = Inr (table_data, name)
        \<longrightarrow> (\<forall>chrom_data \<in> set table_data.
               map_of chrom_data ''Chromosome'' \<noteq> Some (PStr ''Un'')))"
proof (intro conjI impI)
  show "map_seq genome_id organism_name include_unplaced exclude_columns (PDict seq) = Inr None
      \<longleftrightarrow> \<not> included include_unplaced seq"
    unfolding map_seq_cases by (auto split: sum.splits)
next
  assume "gc_well_typed seq"
  then obtain gc where "gc_content seq = Inr gc"
    using gc_content_well_typed by blast
  then show "(\<exists>chrom_data.
            map_seq genome_id organism_name include_unplaced exclude_columns (PDict seq)
              = Inr (Some chrom_data))
         \<longleftrightarrow> included include_unplaced seq"
    unfolding map_seq_cases by simp
next
  assume ms: "map_and_sort genome_id organism_name False exclude_columns reports
                = Inr (table_data, name)"
  show "\<forall>chrom_data \<in> set table_data. map_of chrom_data ''Chromosome'' \<noteq> Some (PStr ''Un'')"
  proof (cases "try_body genome_id organism_name False exclude_columns reports")
    case (Inl e)
    with ms have "table_data = []"
      by (auto simp: map_and_sort_def split: if_splits)
    then show ?thesis by simp
  next
    case (Inr rows)
    with ms have rows: "rows = table_data" by (simp add: map_and_sort_def)
    from Inr obtain t where
      b: "build_table genome_id organism_name False exclude_columns reports [] = Inr t"
      and s: "sort_table t = Inr rows"
      by (auto simp: try_body_def split: sum.splits)
    show ?thesis
    proof
      fix chrom_data
      assume "chrom_data \<in> set table_data"
      with sort_table_set [OF s] rows have "chrom_data \<in> set t" by simp
      with build_table_rows [OF b] obtain seq where
        "map_seq genome_id organism_name False exclude_columns seq = Inr (Some chrom_data)"
        by blast
      then show "map_of chrom_data ''Chromosome'' \<noteq> Some (PStr ''Un'')"
        by (rule mapped_row_label)
    qed
  qed
qed

theorem C1_inclusion_rule_witness:
  "map_seq ''GCA_1'' (PStr ''Homo sapiens'') False None
     (PDict [(''assigned_molecule_location_type'', PStr ''Chromosome''),
             (''chr_name'', PStr ''Un'')]) = Inr None
   \<and> \<not> included False [(''assigned_molecule_location_type'', PStr ''Chromosome''),
                         (''chr_name'', PStr ''Un'')]
   \<and> map_and_sort ''GCA_1'' (PStr ''Homo sapiens'') False None
        [PDict [(''assigned_molecule_location_type'', PStr ''Chromosome''),
                (''chr_name'', PStr ''Un'')],
         PDict [(''assigned_molecule_location_type'', PStr ''Chromosome''),
                (''chr_name'', PStr ''1'')]]
       = Inr ([[(''GenomeID'', PStr ''GCA_1''), (''Taxon'', PStr ''Homo sapiens''),
                (''Chromosome'', PStr ''1''), (''GenBank'', PStr ''N/A''),
                (''RefSeq'', PStr ''n/a''), (''Size (bp)'', PInt 0),
                (''GC content (%)'', PNone)]], PStr ''Homo sapiens'')
   \<and> map_of [(''GenomeID'', PStr ''GCA_1''), (''Taxon'', PStr ''Homo sapiens''),
             (''Chromosome'', PStr ''1''), (''GenBank'', PStr ''N/A''),
             (''RefSeq'', PStr ''n/a''), (''Size (bp)'', PInt 0),
             (''GC content (%)'', PNone)] ''Chromosome'' \<noteq> Some (PStr ''Un'')"
proof -
  have n: "\<not> included False [(''assigned_molecule_location_type'', PStr ''Chromosome''),
                         (''chr_name'', PStr ''Un'')]"
    by (simp add: included_def resolved_label_def)
  have m: "map_and_sort ''GCA_1'' (PStr ''Homo sapiens'') False None
        [PDict [(''assigned_molecule_location_type'', PStr ''Chromosome''),
                (''chr_name'', PStr ''Un'')],
         PDict [(''assigned_molecule_location_type'', PStr ''Chromosome''),
                (''chr_name'', PStr ''1'')]]
       = Inr ([[(''GenomeID'', PStr ''GCA_1''), (''Taxon'', PStr ''Homo sapiens''),
                (''Chromosome'', PStr ''1''), (''GenBank'', PStr ''N/A''),
                (''RefSeq'', PStr ''n/a''), (''Size (bp)'', PInt 0),
                (''GC content (%)'', PNone)]], PStr ''Homo sapiens'')"
    by code_simp
  note c = C1_inclusion_rule [of "''GCA_1''" "PStr ''Homo sapiens''" False None
        "[(''assigned_molecule_location_type'', PStr ''Chromosome''), (''chr_name'', PStr ''Un'')]"
        "[PDict [(''assigned_molecule_location_type'', PStr ''Chromosome''),
                (''chr_name'', PStr ''Un'')],
         PDict [(''assigned_molecule_location_type'', PStr ''Chromosome''),
                (''chr_name'', PStr ''1'')]]"
        "[[(''GenomeID'', PStr ''GCA_1''), (''Taxon'', PStr ''Homo sapiens''),
                (''Chromosome'', PStr ''1''), (''GenBank'', PStr ''N/A''),
                (''RefSeq'', PStr ''n/a''), (''Size (bp)'', PInt 0),
                (''GC content (%)'', PNone)]]" "PStr ''Homo sapiens''"]
  from c n have a: "map_seq ''GCA_1'' (PStr ''Homo sapiens'') False None
     (PDict [(''assigned_molecule_location_type'', PStr ''Chromosome''),
             (''chr_name'', PStr ''Un'')]) = Inr None"
    by blast
  from c m have b: "map_of [(''GenomeID'', PStr ''GCA_1''), (''Taxon'', PStr ''Homo sapiens''),
             (''Chromosome'', PStr ''1''), (''GenBank'', PStr ''N/A''),
             (''RefSeq'', PStr ''n/a''), (''Size (bp)'', PInt 0),
             (''GC content (%)'', PNone)] ''Chromosome'' \<noteq> Some (PStr ''Un'')"
    by simp
  from a n m b show ?thesis by blast
qed

section \<open>Errors while mapping or sorting\<close>

lemma build_table_success:
  "(\<forall>seq \<in> set reports. \<exists>res. map_seq g organism i ex seq = Inr res) \<Longrightarrow>
   \<exists>t. build_table g organism i ex reports [] = Inr t"
proof (induction reports)
  case Nil
  show ?case by simp
next
  case (Cons seq reports)
  then obtain res t where "map_seq g organism i ex seq = Inr res"
    and "build_table g organism i ex reports [] = Inr t"
    by auto
  then show ?case
    unfolding build_table_Cons by simp
qed

lemma build_table_all_mapped:
  "build_table g organism i ex reports [] = Inr t \<Longrightarrow>
   \<forall>seq \<in> set reports. \<exists>res. map_seq g organism i ex seq = Inr res"
proof (induction reports arbitrary: t)
  case Nil
  show ?case by simp
next
  case (Cons seq reports)
  from Cons.prems obtain res t' where
    "map_seq g organism i ex seq = Inr res"
    and "build_table g organism i ex reports [] = Inr t'"
    unfolding build_table_Cons by (auto split: sum.splits)
  with Cons.IH show ?case by auto
qed

lemma py_round1_error: "py_round1 v = Inl e \<Longrightarrow> e = TypeError"
  by (cases v) auto

lemma map_seq_dict_error:
  assumes "map_seq g organism i ex (PDict d) = Inl e"
  shows "e = TypeError"
proof -
  from assms have "gc_content d = Inl e"
    unfolding map_seq_cases by (simp split: if_splits sum.splits)
  then show ?thesis
    by (auto simp: gc_content_cases split: option.splits if_splits dest: py_round1_error)
qed

lemma map_seq_well_typed:
  assumes "gc_well_typed d"
  shows "\<exists>res. map_seq g organism i ex (PDict d) = Inr res"
proof -
  from gc_content_well_typed [OF assms] obtain gc where "gc_content d = Inr gc" by blast
  then show ?thesis
    unfolding map_seq_cases by simp
qed

lemma keyed_KeyError:
  "map_of r ''Chromosome'' = None \<Longrightarrow> keyed (r # rs) = Inl KeyError"
  by (simp add: sort_key_def)

lemma sort_table_Nil: "sort_table [] = Inr []"
  by (simp add: sort_table_def)

text \<open>
  C5. If the mapping loop or the sort raises a KeyError, an IndexError or a TypeError, the
  result for the assembly is the empty table paired with the organism name already resolved.
  In particular, when a record raises such an error, the rows mapped from the records before
  it are not emitted. A table that is returned non-empty is the complete sorted table of all
  the records: all or nothing.
\<close>

theorem C5_all_or_nothing:
  "((e = KeyError \<or> e = IndexError \<or> e = TypeError)
      \<and> try_body genome_id organism_name include_unplaced exclude_columns reports = Inl e
      \<longrightarrow> map_and_sort genome_id organism_name include_unplaced exclude_columns reports
            = Inr ([], organism_name))
   \<and> ((e = KeyError \<or> e = IndexError \<or> e = TypeError)
      \<and> (\<forall>x \<in> set pre.
            \<exists>res. map_seq genome_id organism_name include_unplaced exclude_columns x = Inr res)
      \<and> map_seq genome_id organism_name include_unplaced exclude_columns r = Inl e
      \<longrightarrow> map_and_sort genome_id organism_name include_unplaced exclude_columns (pre @ r # post)
            = Inr ([], organism_name))
   \<and> (map_and_sort genome_id organism_name include_unplaced exclude_columns reports
        = Inr (table_data, name)
      \<longrightarrow> name = organism_name
          \<and> (table_data = []
             \<or> (\<exists>t. build_table genome_id organism_name include_unplaced exclude_columns reports []
                      = Inr t
                    \<and> sort_table t = Inr table_data)))
   \<and> ((e = KeyError \<or> e = IndexError \<or> e = TypeError)
      \<and> fetch_all_sequence_reports sequence_reports = Some (Inr reports) \<and> reports \<noteq> []
      \<and> try_body genome_id (resolve_organism_name dataset_report) include_unplaced
            exclude_columns reports = Inl e
      \<longrightarrow> fetch_chromosome_table sequence_reports dataset_report genome_id include_unplaced
            exclude_columns = Some (Inr ([], resolve_organism_name dataset_report)))"
proof (intro conjI impI)
  assume "(e = KeyError \<or> e = IndexError \<or> e = TypeError)
      \<and> try_body genome_id organism_name include_unplaced exclude_columns reports = Inl e"
  then show "map_and_sort genome_id organism_name include_unplaced exclude_columns reports
            = Inr ([], organism_name)"
    by (auto simp: map_and_sort_def)
next
  assume a: "(e = KeyError \<or> e = IndexError \<or> e = TypeError)
      \<and> (\<forall>x \<in> set pre.
            \<exists>res. map_seq genome_id organism_name include_unplaced exclude_columns x = Inr res)
      \<and> map_seq genome_id organism_name include_unplaced exclude_columns r = Inl e"
  then have "build_table genome_id organism_name include_unplaced exclude_columns
               (pre @ r # post) [] = Inl e"
    by (intro build_table_prefix_error) simp_all
  then have "try_body genome_id organism_name include_unplaced exclude_columns (pre @ r # post)
               = Inl e"
    by (simp add: try_body_def)
  with a show "map_and_sort genome_id organism_name include_unplaced exclude_columns
                 (pre @ r # post) = Inr ([], organism_name)"
    by (auto simp: map_and_sort_def)
next
  assume m: "map_and_sort genome_id organism_name include_unplaced exclude_columns reports
        = Inr (table_data, name)"
  then show "name = organism_name"
    by (auto simp: map_and_sort_def split: sum.splits if_splits)
  from m show "table_data = []
             \<or> (\<exists>t. build_table genome_id organism_name include_unplaced exclude_columns reports []
                      = Inr t
                    \<and> sort_table t = Inr table_data)"
    by (auto simp: map_and_sort_def try_body_def split: sum.splits if_splits)
next
  assume "(e = KeyError \<or> e = IndexError \<or> e = TypeError)
      \<and> fetch_all_sequence_reports sequence_reports = Some (Inr reports) \<and> reports \<noteq> []
      \<and> try_body genome_id (resolve_organism_name dataset_report) include_unplaced
            exclude_columns reports = Inl e"
  then show "fetch_chromosome_table sequence_reports dataset_report genome_id include_unplaced
            exclude_columns = Some (Inr ([], resolve_organism_name dataset_report))"
    by (auto simp: fetch_chromosome_table_def map_and_sort_def)
qed

text \<open>
  C10. For an assembly whose raw records (dictionaries) include at least one record passing
  the inclusion rule, if the exclusion list contains \<^verbatim>\<open>"Chromosome"\<close> then the result is the
  empty table paired with the organism name: the projection comes before the sort, the sort
  key looks the removed column up, and the KeyError is caught by the handler. (When a GC
  value raises TypeError first, the same handler gives the same result.)
\<close>

theorem C10_chromosome_excluded:
  assumes "\<forall>r \<in> set reports. is_dict r"
    and "''Chromosome'' \<in> set cols"
    and "\<exists>d. PDict d \<in> set reports \<and> included include_unplaced d"
  shows "map_and_sort genome_id organism_name include_unplaced (Some cols) reports
           = Inr ([], organism_name)
         \<and> ((\<forall>d. PDict d \<in> set reports \<longrightarrow> gc_well_typed d) \<longrightarrow>
              try_body genome_id organism_name include_unplaced (Some cols) reports
                = Inl KeyError)"
proof -
  let ?build = "build_table genome_id organism_name include_unplaced (Some cols) reports []"
  let ?map = "map_seq genome_id organism_name include_unplaced (Some cols)"
  have ex: "excluded (Some cols) ''Chromosome''"
    using assms(2) by (simp add: excluded_def)
  have key: "try_body genome_id organism_name include_unplaced (Some cols) reports = Inl KeyError"
    if b: "?build = Inr t" for t
  proof -
    from assms(3) obtain d where d: "PDict d \<in> set reports" "included include_unplaced d"
      by blast
    have "?map (PDict d) \<noteq> Inr None"
      using d(2) unfolding map_seq_cases by (simp split: sum.splits)
    moreover have "\<exists>res. ?map (PDict d) = Inr res"
      using build_table_all_mapped [OF b] d(1) by blast
    ultimately obtain r where r: "?map (PDict d) = Inr (Some r)"
      by (cases "?map (PDict d)") auto
    with build_table_rows [OF b] d(1) have "r \<in> set t" by blast
    then obtain r0 rs where t: "t = r0 # rs" by (cases t) auto
    with build_table_rows [OF b] obtain seq where "?map seq = Inr (Some r0)" by auto
    from map_seq_SomeD [OF this] ex have "map_of r0 ''Chromosome'' = None"
      by (auto simp: map_of_project)
    then have "keyed (r0 # rs) = Inl KeyError" by (rule keyed_KeyError)
    with t have "sort_table t = Inl KeyError" by (simp add: sort_table_def)
    with b show ?thesis by (simp add: try_body_def)
  qed
  have first: "map_and_sort genome_id organism_name include_unplaced (Some cols) reports
           = Inr ([], organism_name)"
  proof (cases ?build)
    case (Inl e)
    from build_table_error [OF Inl] obtain seq where
      s: "seq \<in> set reports" "?map seq = Inl e" by blast
    with assms(1) obtain d where "seq = PDict d" by (cases seq) auto
    with s have "e = TypeError" using map_seq_dict_error by blast
    with Inl show ?thesis by (simp add: map_and_sort_def try_body_def)
  next
    case (Inr t)
    from key [OF Inr] show ?thesis by (simp add: map_and_sort_def)
  qed
  have second: "try_body genome_id organism_name include_unplaced (Some cols) reports
                = Inl KeyError"
    if wt: "\<forall>d. PDict d \<in> set reports \<longrightarrow> gc_well_typed d"
  proof -
    have "\<forall>seq \<in> set reports. \<exists>res. ?map seq = Inr res"
    proof
      fix seq assume s: "seq \<in> set reports"
      with assms(1) obtain d where d: "seq = PDict d" by (cases seq) auto
      with s wt have "gc_well_typed d" by blast
      from map_seq_well_typed [OF this] d show "\<exists>res. ?map seq = Inr res" by blast
    qed
    from build_table_success [OF this] obtain t where "?build = Inr t" by blast
    then show ?thesis by (rule key)
  qed
  from first second show ?thesis by blast
qed

theorem C5_all_or_nothing_witness:
  "map_seq ''GCA_1'' (PStr ''Homo sapiens'') False None
     (PDict [(''assigned_molecule_location_type'', PStr ''Chromosome''),
             (''chr_name'', PStr ''1'')])
     = Inr (Some [(''GenomeID'', PStr ''GCA_1''), (''Taxon'', PStr ''Homo sapiens''),
                  (''Chromosome'', PStr ''1''), (''GenBank'', PStr ''N/A''),
                  (''RefSeq'', PStr ''n/a''), (''Size (bp)'', PInt 0),
                  (''GC content (%)'', PNone)])
   \<and> map_seq ''GCA_1'' (PStr ''Homo sapiens'') False None
       (PDict [(''assigned_molecule_location_type'', PStr ''Chromosome''),
               (''chr_name'', PStr ''2''), (''gc_percent'', PStr ''high'')])
     = Inl TypeError
   \<and> map_and_sort ''GCA_1'' (PStr ''Homo sapiens'') False None
       [PDict [(''assigned_molecule_location_type'', PStr ''Chromosome''),
               (''chr_name'', PStr ''1'')],
        PDict [(''assigned_molecule_location_type'', PStr ''Chromosome''),
               (''chr_name'', PStr ''2''), (''gc_percent'', PStr ''high'')]]
     = Inr ([], PStr ''Homo sapiens'')"
proof -
  have good: "map_seq ''GCA_1'' (PStr ''Homo sapiens'') False None
     (PDict [(''assigned_molecule_location_type'', PStr ''Chromosome''),
             (''chr_name'', PStr ''1'')])
     = Inr (Some [(''GenomeID'', PStr ''GCA_1''), (''Taxon'', PStr ''Homo sapiens''),
                  (''Chromosome'', PStr ''1''), (''GenBank'', PStr ''N/A''),
                  (''RefSeq'', PStr ''n/a''), (''Size (bp)'', PInt 0),
                  (''GC content (%)'', PNone)])"
    by (simp add: dict_get_def gc_content_def project_def)
  have bad: "map_seq ''GCA_1'' (PStr ''Homo sapiens'') False None
       (PDict [(''assigned_molecule_location_type'', PStr ''Chromosome''),
               (''chr_name'', PStr ''2''), (''gc_percent'', PStr ''high'')])
     = Inl TypeError"
    by (simp add: dict_get_def gc_content_def)
  from good have pre: "\<forall>x \<in> set [PDict [(''assigned_molecule_location_type'', PStr ''Chromosome''),
             (''chr_name'', PStr ''1'')]].
      \<exists>res. map_seq ''GCA_1'' (PStr ''Homo sapiens'') False None x = Inr res"
    by simp
  from C5_all_or_nothing [where e = TypeError and genome_id = "''GCA_1''"
      and organism_name = "PStr ''Homo sapiens''" and include_unplaced = False
      and exclude_columns = None
      and pre = "[PDict [(''assigned_molecule_location_type'', PStr ''Chromosome''),
             (''chr_name'', PStr ''1'')]]"
      and r = "PDict [(''assigned_molecule_location_type'', PStr ''Chromosome''),
               (''chr_name'', PStr ''2''), (''gc_percent'', PStr ''high'')]"
      and post = "[]"] pre bad
  have "map_and_sort ''GCA_1'' (PStr ''Homo sapiens'') False None
       ([PDict [(''assigned_molecule_location_type'', PStr ''Chromosome''),
               (''chr_name'', PStr ''1'')]] @
        PDict [(''assigned_molecule_location_type'', PStr ''Chromosome''),
               (''chr_name'', PStr ''2''), (''gc_percent'', PStr ''high'')] # [])
     = Inr ([], PStr ''Homo sapiens'')"
    by blast
  with good bad show ?thesis by simp
qed

theorem C10_chromosome_excluded_witness:
  "map_and_sort ''GCA_1'' (PStr ''Homo sapiens'') False (Some [''Chromosome''])
       [PDict [(''assigned_molecule_location_type'', PStr ''Chromosome''),
               (''chr_name'', PStr ''1'')]]
     = Inr ([], PStr ''Homo sapiens'')
   \<and> try_body ''GCA_1'' (PStr ''Homo sapiens'') False (Some [''Chromosome''])
       [PDict [(''assigned_molecule_location_type'', PStr ''Chromosome''),
               (''chr_name'', PStr ''1'')]]
     = Inl KeyError"
proof -
  have d: "\<forall>r \<in> set [PDict [(''assigned_molecule_location_type'', PStr ''Chromosome''),
               (''chr_name'', PStr ''1'')]]. is_dict r"
    by simp
  have c: "''Chromosome'' \<in> set [''Chromosome'']" by simp
  have i: "\<exists>d. PDict d \<in> set [PDict [(''assigned_molecule_location_type'', PStr ''Chromosome''),
               (''chr_name'', PStr ''1'')]] \<and> included False d"
    by (simp add: included_def resolved_label_def)
  have w: "\<forall>d. PDict d \<in> set [PDict [(''assigned_molecule_location_type'', PStr ''Chromosome''),
               (''chr_name'', PStr ''1'')]] \<longrightarrow> gc_well_typed d"
    by (simp add: gc_well_typed_def)
  from C10_chromosome_excluded [OF d c i, of "''GCA_1''" "PStr ''Homo sapiens''"] w
  show ?thesis by blast
qed

section \<open>Column projection\<close>

lemma project_single: "project (Some [c]) r = drop_column c r"
  by (simp add: project_def drop_column_def)

lemma project_identity: "project None r = r" "project (Some []) r = r"
  by (simp_all add: project_def)

lemma map_of_drop_column:
  "map_of (drop_column c r) k = (if k = c then None else map_of r k)"
  unfolding drop_column_def by (induction r) auto

lemma sort_key_drop_column:
  "c \<noteq> ''Chromosome'' \<Longrightarrow> sort_key (drop_column c r) = sort_key r"
  by (simp add: sort_key_def map_of_drop_column)

lemma map_seq_single:
  "map_seq g organism i (Some [c]) seq =
     map_sum id (map_option (drop_column c)) (map_seq g organism i None seq)"
proof (cases seq)
  case (PDict d)
  show ?thesis
    unfolding PDict map_seq_cases
    by (simp add: project_single project_identity split: sum.splits)
qed simp_all

lemma map_seq_empty_list:
  "map_seq g organism i (Some []) seq = map_seq g organism i None seq"
proof (cases seq)
  case (PDict d)
  show ?thesis
    unfolding PDict map_seq_cases by (simp add: project_identity split: sum.splits)
qed simp_all

lemma build_table_single:
  "build_table g organism i (Some [c]) reports [] =
     map_sum id (map (drop_column c)) (build_table g organism i None reports [])"
proof (induction reports)
  case Nil
  show ?case by simp
next
  case (Cons seq reports)
  show ?case
    unfolding build_table_Cons map_seq_single Cons.IH
    by (cases "map_seq g organism i None seq";
        cases "build_table g organism i None reports []")
       (simp_all split: option.splits)
qed

lemma build_table_empty_list:
  "build_table g organism i (Some []) reports [] = build_table g organism i None reports []"
proof (induction reports)
  case Nil
  show ?case by simp
next
  case (Cons seq reports)
  show ?case
    unfolding build_table_Cons map_seq_empty_list Cons.IH by (rule refl)
qed

lemma keyed_map:
  assumes "\<And>r. sort_key (f r) = sort_key r"
  shows "keyed (map f rows) = map_sum id (map (apsnd f)) (keyed rows)"
proof (induction rows)
  case Nil
  show ?case by simp
next
  case (Cons r rows)
  show ?case
    by (cases "sort_key r"; cases "keyed rows") (simp_all add: assms Cons.IH)
qed

lemma insert_keyed_map:
  "insert_keyed (apsnd f x) (map (apsnd f) ys) = map_sum id (map (apsnd f)) (insert_keyed x ys)"
proof (induction ys)
  case Nil
  show ?case by simp
next
  case (Cons y ys)
  show ?case
  proof (cases "tuple_lt (fst x) (fst y)")
    case (Inl e)
    then show ?thesis by simp
  next
    case (Inr b)
    with Cons.IH show ?thesis
      by (cases b; cases "insert_keyed x ys") simp_all
  qed
qed

lemma sort_keyed_map:
  "sort_keyed (map (apsnd f) acc) (map (apsnd f) xs) =
     map_sum id (map (apsnd f)) (sort_keyed acc xs)"
proof (induction xs arbitrary: acc)
  case Nil
  show ?case by simp
next
  case (Cons x xs)
  show ?case
  proof (cases "insert_keyed x acc")
    case (Inl e)
    then show ?thesis by (simp add: insert_keyed_map)
  next
    case (Inr acc')
    with Cons.IH [of acc'] show ?thesis by (simp add: insert_keyed_map)
  qed
qed

lemma sort_table_map:
  assumes "\<And>r. sort_key (f r) = sort_key r"
  shows "sort_table (map f t) = map_sum id (map f) (sort_table t)"
proof (cases "keyed t")
  case (Inl e)
  then show ?thesis by (simp add: sort_table_def keyed_map [OF assms])
next
  case (Inr kis)
  have "sort_keyed [] (map (apsnd f) kis) = map_sum id (map (apsnd f)) (sort_keyed [] kis)"
    using sort_keyed_map [of f "[]" kis] by simp
  with Inr show ?thesis
    by (cases "sort_keyed [] kis") (simp_all add: sort_table_def keyed_map [OF assms])
qed

lemma try_body_single:
  assumes "c \<noteq> ''Chromosome''"
  shows "try_body g organism i (Some [c]) reports =
           map_sum id (map (drop_column c)) (try_body g organism i None reports)"
proof (cases "build_table g organism i None reports []")
  case (Inl e)
  then show ?thesis by (simp add: try_body_def build_table_single)
next
  case (Inr t)
  have "sort_table (map (drop_column c) t) = map_sum id (map (drop_column c)) (sort_table t)"
    by (rule sort_table_map) (rule sort_key_drop_column [OF assms])
  with Inr show ?thesis by (simp add: try_body_def build_table_single)
qed

text \<open>
  C9. For every list of records, the run with the exclusion list \<^verbatim>\<open>["RefSeq"]\<close> gives the
  rows of the run with no exclusion, each without its RefSeq entry, in the same order and with
  the same organism name (and the same exception, if one leaves the function); every other
  entry of a row is unchanged, and the header loses exactly \<^verbatim>\<open>RefSeq\<close>. With an empty or
  unset exclusion list the projection is the identity.
\<close>

theorem C9_refseq_projection:
  "map_and_sort genome_id organism_name include_unplaced (Some [''RefSeq'']) reports =
     map_sum id (\<lambda>(table_data, name). (map (drop_column ''RefSeq'') table_data, name))
       (map_and_sort genome_id organism_name include_unplaced None reports)
   \<and> map_of (drop_column ''RefSeq'' chrom_data) k =
       (if k = ''RefSeq'' then None else map_of chrom_data k)
   \<and> csv_headers (map (drop_column ''RefSeq'') table_data) =
       map_option (filter (\<lambda>h. h \<noteq> ''RefSeq'')) (csv_headers table_data)
   \<and> map_and_sort genome_id organism_name include_unplaced (Some []) reports =
       map_and_sort genome_id organism_name include_unplaced None reports
   \<and> project None chrom_data = chrom_data
   \<and> project (Some []) chrom_data = chrom_data"
proof (intro conjI)
  have t: "try_body genome_id organism_name include_unplaced (Some [''RefSeq'']) reports =
           map_sum id (map (drop_column ''RefSeq''))
             (try_body genome_id organism_name include_unplaced None reports)"
    by (rule try_body_single) simp
  show "map_and_sort genome_id organism_name include_unplaced (Some [''RefSeq'']) reports =
     map_sum id (\<lambda>(table_data, name). (map (drop_column ''RefSeq'') table_data, name))
       (map_and_sort genome_id organism_name include_unplaced None reports)"
    unfolding map_and_sort_def t
    by (cases "try_body genome_id organism_name include_unplaced None reports") simp_all
  show "map_of (drop_column ''RefSeq'' chrom_data) k =
       (if k = ''RefSeq'' then None else map_of chrom_data k)"
    by (rule map_of_drop_column)
  show "csv_headers (map (drop_column ''RefSeq'') table_data) =
       map_option (filter (\<lambda>h. h \<noteq> ''RefSeq'')) (csv_headers table_data)"
    by (cases table_data) (simp_all add: csv_headers_def drop_column_def filter_map comp_def)
  show "map_and_sort genome_id organism_name include_unplaced (Some []) reports =
       map_and_sort genome_id organism_name include_unplaced None reports"
    by (simp add: map_and_sort_def try_body_def build_table_empty_list)
  show "project None chrom_data = chrom_data" "project (Some []) chrom_data = chrom_data"
    by (rule project_identity)+
qed

theorem C9_refseq_projection_witness:
  "map_and_sort ''GCA_1'' (PStr ''Homo sapiens'') False (Some [''RefSeq''])
       [PDict [(''assigned_molecule_location_type'', PStr ''Chromosome''),
               (''chr_name'', PStr ''2''), (''refseq_accession'', PStr ''NC_2'')],
        PDict [(''assigned_molecule_location_type'', PStr ''Chromosome''),
               (''chr_name'', PStr ''1''), (''refseq_accession'', PStr ''NC_1'')]]
     = Inr ([[(''GenomeID'', PStr ''GCA_1''), (''Taxon'', PStr ''Homo sapiens''),
              (''Chromosome'', PStr ''1''), (''GenBank'', PStr ''N/A''),
              (''Size (bp)'', PInt 0), (''GC content (%)'', PNone)],
             [(''GenomeID'', PStr ''GCA_1''), (''Taxon'', PStr ''Homo sapiens''),
              (''Chromosome'', PStr ''2''), (''GenBank'', PStr ''N/A''),
              (''Size (bp)'', PInt 0), (''GC content (%)'', PNone)]], PStr ''Homo sapiens'')"
proof -
  have n: "map_and_sort ''GCA_1'' (PStr ''Homo sapiens'') False None
       [PDict [(''assigned_molecule_location_type'', PStr ''Chromosome''),
               (''chr_name'', PStr ''2''), (''refseq_accession'', PStr ''NC_2'')],
        PDict [(''assigned_molecule_location_type'', PStr ''Chromosome''),
               (''chr_name'', PStr ''1''), (''refseq_accession'', PStr ''NC_1'')]]
     = Inr ([[(''GenomeID'', PStr ''GCA_1''), (''Taxon'', PStr ''Homo sapiens''),
              (''Chromosome'', PStr ''1''), (''GenBank'', PStr ''N/A''),
              (''RefSeq'', PStr ''NC_1''),
              (''Size (bp)'', PInt 0), (''GC content (%)'', PNone)],
             [(''GenomeID'', PStr ''GCA_1''), (''Taxon'', PStr ''Homo sapiens''),
              (''Chromosome'', PStr ''2''), (''GenBank'', PStr ''N/A''),
              (''RefSeq'', PStr ''NC_2''),
              (''Size (bp)'', PInt 0), (''GC content (%)'', PNone)]], PStr ''Homo sapiens'')"
    by code_simp
  from C9_refseq_projection [of "''GCA_1''" "PStr ''Homo sapiens''" False
       "[PDict [(''assigned_molecule_location_type'', PStr ''Chromosome''),
               (''chr_name'', PStr ''2''), (''refseq_accession'', PStr ''NC_2'')],
        PDict [(''assigned_molecule_location_type'', PStr ''Chromosome''),
               (''chr_name'', PStr ''1''), (''refseq_accession'', PStr ''NC_1'')]]"]
  show ?thesis
    unfolding n by (simp add: drop_column_def)
qed

section \<open>Pagination\<close>

lemma fetch_pages_error:
  assumes "page api i = RequestException"
  shows "fetch_pages api i (token_at api i) acc = Some (Inr acc)"
  using assms by (subst fetch_pages.simps) (simp add: page_def)

lemma page_items_SomeD:
  assumes "page_items r = Some items"
  shows "\<exists>d. r = Json (PDict d) \<and> py_iter (dict_get d ''reports'' (PList [])) = Inr items"
proof (cases r)
  case RequestException
  with assms show ?thesis by (simp add: page_items_def)
next
  case (Json data)
  with assms show ?thesis
    by (cases data) (simp_all add: page_items_def split: sum.splits)
qed

lemma fetch_pages_last:
  assumes "page_items (page api i) = Some items" and "\<not> has_token (page api i)"
  shows "fetch_pages api i (token_at api i) acc = Some (Inr (acc @ items))"
proof -
  from page_items_SomeD [OF assms(1)] obtain d where
    d: "api i (token_param (token_at api i)) = Json (PDict d)"
    and it: "py_iter (dict_get d ''reports'' (PList [])) = Inr items"
    unfolding page_def by blast
  from assms(2) d have "\<not> truthy (dict_get d ''next_page_token'' PNone)"
    by (simp add: has_token_def page_def)
  with d it show ?thesis
    by (subst fetch_pages.simps) simp
qed

lemma fetch_pages_step:
  assumes "page_items (page api i) = Some items" and "has_token (page api i)"
  shows "fetch_pages api i (token_at api i) acc =
           fetch_pages api (Suc i) (token_at api (Suc i)) (acc @ items)"
proof -
  from page_items_SomeD [OF assms(1)] obtain d where
    d: "api i (token_param (token_at api i)) = Json (PDict d)"
    and it: "py_iter (dict_get d ''reports'' (PList [])) = Inr items"
    unfolding page_def by blast
  from assms(2) d have "truthy (dict_get d ''next_page_token'' PNone)"
    by (simp add: has_token_def page_def)
  with d it show ?thesis
    by (subst fetch_pages.simps) simp
qed

lemma fetch_pages_run:
  assumes "\<forall>k<n. page_items (page api k) \<noteq> None \<and> has_token (page api k)"
  shows "fetch_pages api 0 (token_at api 0) [] =
           fetch_pages api n (token_at api n) (concat (map (\<lambda>k. items_of (page api k)) [0..<n]))"
  using assms
proof (induction n)
  case 0
  show ?case by simp
next
  case (Suc n)
  from Suc.prems obtain items where
    i: "page_items (page api n) = Some items" and t: "has_token (page api n)"
    by auto
  from Suc have "fetch_pages api 0 (token_at api 0) [] =
           fetch_pages api n (token_at api n) (concat (map (\<lambda>k. items_of (page api k)) [0..<n]))"
    by simp
  also have "\<dots> = fetch_pages api (Suc n) (token_at api (Suc n))
                     (concat (map (\<lambda>k. items_of (page api k)) [0..<n]) @ items)"
    by (rule fetch_pages_step [OF i t])
  also have "concat (map (\<lambda>k. items_of (page api k)) [0..<n]) @ items =
             concat (map (\<lambda>k. items_of (page api k)) [0..<Suc n])"
    using i by (simp add: items_of_def)
  finally show ?case .
qed

text \<open>
  C6. Let the first \<open>n\<close> responses each carry entries and a continuation token. If the
  next request fails with a transport error, the fetch returns exactly the entries of those
  \<open>n\<close> pages, in arrival order, and raises nothing. If the next response carries entries
  and no continuation token, the fetch stops there and returns the entries of all
  \<open>n + 1\<close> pages in arrival order.
\<close>

theorem C6_pagination:
  assumes "\<forall>k<n. page_items (page api k) \<noteq> None \<and> has_token (page api k)"
  shows "(page api n = RequestException \<longrightarrow>
            fetch_all_sequence_reports api =
              Some (Inr (concat (map (\<lambda>k. items_of (page api k)) [0..<n]))))
       \<and> (page_items (page api n) \<noteq> None \<and> \<not> has_token (page api n) \<longrightarrow>
            fetch_all_sequence_reports api =
              Some (Inr (concat (map (\<lambda>k. items_of (page api k)) [0..<Suc n]))))"
proof (intro conjI impI)
  assume "page api n = RequestException"
  then show "fetch_all_sequence_reports api =
              Some (Inr (concat (map (\<lambda>k. items_of (page api k)) [0..<n])))"
    using fetch_pages_run [OF assms] by (simp add: fetch_all_sequence_reports_def fetch_pages_error)
next
  assume a: "page_items (page api n) \<noteq> None \<and> \<not> has_token (page api n)"
  then obtain items where i: "page_items (page api n) = Some items" by auto
  from a have "fetch_pages api n (token_at api n)
                 (concat (map (\<lambda>k. items_of (page api k)) [0..<n])) =
               Some (Inr (concat (map (\<lambda>k. items_of (page api k)) [0..<n]) @ items))"
    by (intro fetch_pages_last [OF i]) simp
  with i show "fetch_all_sequence_reports api =
              Some (Inr (concat (map (\<lambda>k. items_of (page api k)) [0..<Suc n])))"
    using fetch_pages_run [OF assms] by (simp add: fetch_all_sequence_reports_def items_of_def)
qed

theorem C6_pagination_witness:
  "fetch_all_sequence_reports
     (\<lambda>i tok.
        if i = 0 then
          Json (PDict [(''reports'', PList [PDict [(''chr_name'', PStr ''1'')]]),
                       (''next_page_token'', PStr ''t1'')])
        else if tok = Some (PStr ''t1'') then
          Json (PDict [(''reports'', PList [PDict [(''chr_name'', PStr ''2'')]])])
        else RequestException)
     = Some (Inr [PDict [(''chr_name'', PStr ''1'')], PDict [(''chr_name'', PStr ''2'')]])
   \<and> fetch_all_sequence_reports
     (\<lambda>i tok.
        if i = 0 then
          Json (PDict [(''reports'', PList [PDict [(''chr_name'', PStr ''1'')]]),
                       (''next_page_token'', PStr ''t1'')])
        else RequestException)
     = Some (Inr [PDict [(''chr_name'', PStr ''1'')]])"
proof -
  let ?ok = "(\<lambda>i tok.
        if i = 0 then
          Json (PDict [(''reports'', PList [PDict [(''chr_name'', PStr ''1'')]]),
                       (''next_page_token'', PStr ''t1'')])
        else if tok = Some (PStr ''t1'') then
          Json (PDict [(''reports'', PList [PDict [(''chr_name'', PStr ''2'')]])])
        else RequestException)"
  let ?fail = "(\<lambda>i tok.
        if i = 0 then
          Json (PDict [(''reports'', PList [PDict [(''chr_name'', PStr ''1'')]]),
                       (''next_page_token'', PStr ''t1'')])
        else RequestException)"
  have p1: "\<forall>k<Suc 0. page_items (page ?ok k) \<noteq> None \<and> has_token (page ?ok k)"
    by (simp add: page_def page_items_def has_token_def token_param_def dict_get_def)
  have p2: "\<forall>k<Suc 0. page_items (page ?fail k) \<noteq> None \<and> has_token (page ?fail k)"
    by (simp add: page_def page_items_def has_token_def token_param_def dict_get_def)
  have l1: "page_items (page ?ok (Suc 0)) \<noteq> None \<and> \<not> has_token (page ?ok (Suc 0))"
    by (simp add: page_def page_items_def has_token_def token_param_def dict_get_def)
  have l2: "page ?fail (Suc 0) = RequestException"
    by (simp add: page_def)
  from C6_pagination [OF p1] l1 have
    "fetch_all_sequence_reports ?ok =
       Some (Inr (concat (map (\<lambda>k. items_of (page ?ok k)) [0..<Suc (Suc 0)])))"
    by blast
  moreover from C6_pagination [OF p2] l2 have
    "fetch_all_sequence_reports ?fail =
       Some (Inr (concat (map (\<lambda>k. items_of (page ?fail k)) [0..<Suc 0])))"
    by blast
  ultimately show ?thesis
    by (simp add: page_def page_items_def items_of_def token_param_def dict_get_def)
qed

section \<open>Normalising the label\<close>

lemma replace_from_no_occurrence:
  "\<not> occurs old s \<Longrightarrow> replace_from old new s = s"
  by (induction s) auto

lemma replace_from_append:
  assumes "old \<noteq> []" and "hd old \<notin> set a"
  shows "replace_from old new (a @ x) = a @ replace_from old new x"
  using assms(2)
proof (induction a)
  case Nil
  show ?case by simp
next
  case (Cons c a)
  from assms(1) obtain p ps where old: "old = p # ps" by (cases old) auto
  with Cons.prems have "c \<noteq> p" by auto
  with old have "take (length old) (c # a @ x) \<noteq> old" by auto
  with Cons show ?case by simp
qed

lemma replace_from_chr: "replace_from ''chr'' [] (''chr'' @ x) = replace_from ''chr'' [] x"
  by simp

lemma replace_from_Chr: "replace_from ''Chr'' [] (''Chr'' @ x) = replace_from ''Chr'' [] x"
  by simp

lemma replace_from_chr_Chr:
  "replace_from ''chr'' [] (''Chr'' @ x) = ''Chr'' @ replace_from ''chr'' [] x"
  by simp

lemma no_straddle:
  assumes "x \<noteq> y" and "x \<noteq> z" and "take (length [x, y, z]) (c # cs) \<noteq> [x, y, z]"
  shows "take (length [x, y, z]) (c # (cs @ [x, y, z] @ b)) \<noteq> [x, y, z]"
proof (cases cs)
  case Nil
  with assms(1) show ?thesis by auto
next
  case (Cons d ds)
  show ?thesis
  proof (cases ds)
    case Nil
    with Cons assms(2) show ?thesis by auto
  next
    case (Cons e es)
    with \<open>cs = d # ds\<close> assms(3) show ?thesis by simp
  qed
qed

lemma replace_from_skip:
  "take (length old) (c # cs) \<noteq> old \<Longrightarrow>
   replace_from old new (c # cs) = c # replace_from old new cs"
  by simp

lemma replace_from_hit:
  "old \<noteq> [] \<Longrightarrow> replace_from old new (old @ s) = new @ replace_from old new s"
  by (cases old) simp_all

lemma replace_from_occurrence:
  assumes "x \<noteq> y" and "x \<noteq> z"
  shows "replace_from [x, y, z] new (a @ [x, y, z] @ b) =
           replace_from [x, y, z] new a @ new @ replace_from [x, y, z] new b"
proof (induction a rule: length_induct)
  case (1 a)
  have ih: "replace_from [x, y, z] new (a' @ [x, y, z] @ b) =
              replace_from [x, y, z] new a' @ new @ replace_from [x, y, z] new b"
    if "length a' < length a" for a'
    using 1 that by blast
  have ne: "[x, y, z] \<noteq> []" by simp
  show ?case
  proof (cases a)
    case Nil
    have "replace_from [x, y, z] new ([x, y, z] @ b) = new @ replace_from [x, y, z] new b"
      using ne by (rule replace_from_hit)
    then show ?thesis unfolding Nil by simp
  next
    case (Cons c cs)
    show ?thesis
    proof (cases "take (length [x, y, z]) (c # cs) = [x, y, z]")
      case True
      then obtain a' where a': "c # cs = [x, y, z] @ a'"
        by (metis append_take_drop_id)
      with Cons have aeq: "a = [x, y, z] @ a'" by simp
      then have len: "length a' < length a" by simp
      have "replace_from [x, y, z] new (([x, y, z] @ a') @ [x, y, z] @ b) =
              replace_from [x, y, z] new ([x, y, z] @ (a' @ [x, y, z] @ b))"
        by (simp only: append_assoc)
      also have "\<dots> = new @ replace_from [x, y, z] new (a' @ [x, y, z] @ b)"
        using ne by (rule replace_from_hit)
      also have "\<dots> = new @ (replace_from [x, y, z] new a' @ new @ replace_from [x, y, z] new b)"
        by (simp only: ih [OF len])
      also have "\<dots> = (new @ replace_from [x, y, z] new a') @ new @ replace_from [x, y, z] new b"
        by (simp only: append_assoc)
      also have "\<dots> = replace_from [x, y, z] new ([x, y, z] @ a') @ new
                         @ replace_from [x, y, z] new b"
        by (simp only: replace_from_hit [OF ne])
      finally show ?thesis unfolding aeq .
    next
      case False
      have ns: "take (length [x, y, z]) (c # (cs @ [x, y, z] @ b)) \<noteq> [x, y, z]"
        using assms False by (rule no_straddle)
      have len: "length cs < length a" using Cons by simp
      have "replace_from [x, y, z] new ((c # cs) @ [x, y, z] @ b) =
              replace_from [x, y, z] new (c # (cs @ [x, y, z] @ b))"
        by (simp only: append_Cons)
      also have "\<dots> = c # replace_from [x, y, z] new (cs @ [x, y, z] @ b)"
        using ns by (rule replace_from_skip)
      also have "\<dots> = c # (replace_from [x, y, z] new cs @ new @ replace_from [x, y, z] new b)"
        by (simp only: ih [OF len])
      also have "\<dots> = (c # replace_from [x, y, z] new cs) @ new @ replace_from [x, y, z] new b"
        by (simp only: append_Cons)
      also have "\<dots> = replace_from [x, y, z] new (c # cs) @ new @ replace_from [x, y, z] new b"
        by (simp only: replace_from_skip [OF False])
      finally show ?thesis unfolding Cons .
    qed
  qed
qed

lemma replace_chr:
  "replace (a @ ''chr'' @ b) ''chr'' [] = replace a ''chr'' [] @ replace b ''chr'' []"
  using replace_from_occurrence [of "CHR ''c''" "CHR ''h''" "CHR ''r''" "[]" a b]
  by (simp add: replace_def)

lemma replace_Chr:
  "replace (a @ ''Chr'' @ b) ''Chr'' [] = replace a ''Chr'' [] @ replace b ''Chr'' []"
  using replace_from_occurrence [of "CHR ''C''" "CHR ''h''" "CHR ''r''" "[]" a b]
  by (simp add: replace_def)

lemma replace_no_occurrence:
  "old \<noteq> [] \<Longrightarrow> \<not> occurs old s \<Longrightarrow> replace s old new = s"
  by (simp add: replace_def replace_from_no_occurrence)

lemma normalize_eq:
  "normalize s = upper (replace_from ''Chr'' [] (replace_from ''chr'' [] s))"
  by (simp add: normalize_def replace_def)

text \<open>
  C2, as stated, fails: the label \<^verbatim>\<open>"Xchr1"\<close> has its \<^verbatim>\<open>"chr"\<close> after the first
  character, and the key is computed from \<^verbatim>\<open>"X1"\<close>, not from \<^verbatim>\<open>"XCHR1"\<close>.
\<close>

theorem C2_counterexample:
  "normalize ''Xchr1'' = ''X1'' \<and> upper ''Xchr1'' = ''XCHR1''
   \<and> spec_normalize ''Xchr1'' = ''XCHR1''
   \<and> sort_key [(''Chromosome'', PStr ''Xchr1'')] = Inr (AInt 1, AStr ''X'', AInt 1)
   \<and> label_key (spec_normalize ''Xchr1'') = Inr (AInt 1, AStr ''XCHR'', AInt 1)"
  by code_simp

text \<open>
  C2, amended. The key is computed from the label with every occurrence of \<^verbatim>\<open>"chr"\<close>
  deleted, then every occurrence of \<^verbatim>\<open>"Chr"\<close> deleted from the result (these two
  case-sensitive variants only, wherever they stand, found from the left), and the result
  uppercased. Deleting is fixed by two laws for each variant: a string in which the variant
  does not occur is left as it is, and deleting from a string with an occurrence between
  \<open>a\<close> and \<open>b\<close> is deleting from \<open>a\<close> and from \<open>b\<close>. Uppercasing changes the letters
  \<^verbatim>\<open>a\<close> to \<^verbatim>\<open>z\<close> only. So a label in which neither variant occurs is only uppercased; a
  leading \<^verbatim>\<open>"chr"\<close> or \<^verbatim>\<open>"Chr"\<close> before a remainder in which neither occurs is stripped; and
  an occurrence that is not a leading prefix is deleted as well.
\<close>

theorem C2_normalization:
  "(map_of item ''Chromosome'' = Some (PStr s) \<longrightarrow>
      sort_key item = label_key (upper (replace (replace s ''chr'' []) ''Chr'' [])))
   \<and> normalize s = upper (replace (replace s ''chr'' []) ''Chr'' [])
   \<and> (\<not> occurs ''chr'' s \<longrightarrow> replace s ''chr'' [] = s)
   \<and> replace (a @ ''chr'' @ b) ''chr'' [] = replace a ''chr'' [] @ replace b ''chr'' []
   \<and> (\<not> occurs ''Chr'' s \<longrightarrow> replace s ''Chr'' [] = s)
   \<and> replace (a @ ''Chr'' @ b) ''Chr'' [] = replace a ''Chr'' [] @ replace b ''Chr'' []
   \<and> upper s =
       map (\<lambda>c. if CHR ''a'' \<le> c \<and> c \<le> CHR ''z'' then char_of (of_char c - (32 :: nat)) else c) s
   \<and> (\<not> occurs ''chr'' s \<and> \<not> occurs ''Chr'' s \<longrightarrow> normalize s = upper s)
   \<and> (\<not> occurs ''chr'' s \<and> \<not> occurs ''Chr'' s \<longrightarrow>
        normalize (''chr'' @ s) = upper s \<and> normalize (''Chr'' @ s) = upper s)
   \<and> (CHR ''c'' \<notin> set a \<and> CHR ''C'' \<notin> set a \<longrightarrow>
        normalize (a @ ''chr'' @ b) = normalize (a @ b)
        \<and> normalize (a @ ''Chr'' @ b) = normalize (a @ b))"
proof (intro conjI impI)
  assume "map_of item ''Chromosome'' = Some (PStr s)"
  then show "sort_key item = label_key (upper (replace (replace s ''chr'' []) ''Chr'' []))"
    by (simp add: sort_key_def normalize_def)
next
  show "normalize s = upper (replace (replace s ''chr'' []) ''Chr'' [])"
    by (simp add: normalize_def)
next
  assume "\<not> occurs ''chr'' s"
  then show "replace s ''chr'' [] = s"
    by (intro replace_no_occurrence) simp_all
next
  show "replace (a @ ''chr'' @ b) ''chr'' [] = replace a ''chr'' [] @ replace b ''chr'' []"
    by (rule replace_chr)
next
  assume "\<not> occurs ''Chr'' s"
  then show "replace s ''Chr'' [] = s"
    by (intro replace_no_occurrence) simp_all
next
  show "replace (a @ ''Chr'' @ b) ''Chr'' [] = replace a ''Chr'' [] @ replace b ''Chr'' []"
    by (rule replace_Chr)
next
  show "upper s =
       map (\<lambda>c. if CHR ''a'' \<le> c \<and> c \<le> CHR ''z'' then char_of (of_char c - (32 :: nat)) else c) s"
    by (simp add: upper_def upper_char_def is_lower_def)
next
  assume "\<not> occurs ''chr'' s \<and> \<not> occurs ''Chr'' s"
  then show "normalize s = upper s"
    by (simp add: normalize_eq replace_from_no_occurrence)
next
  assume n: "\<not> occurs ''chr'' s \<and> \<not> occurs ''Chr'' s"
  show "normalize (''chr'' @ s) = upper s"
    unfolding normalize_eq replace_from_chr using n by (simp add: replace_from_no_occurrence)
  show "normalize (''Chr'' @ s) = upper s"
    unfolding normalize_eq replace_from_chr_Chr replace_from_Chr
    using n by (simp add: replace_from_no_occurrence)
next
  assume a: "CHR ''c'' \<notin> set a \<and> CHR ''C'' \<notin> set a"
  then have c: "replace_from ''chr'' [] (a @ x) = a @ replace_from ''chr'' [] x" for x
    by (intro replace_from_append) simp_all
  from a have C: "replace_from ''Chr'' [] (a @ x) = a @ replace_from ''Chr'' [] x" for x
    by (intro replace_from_append) simp_all
  show "normalize (a @ ''chr'' @ b) = normalize (a @ b)"
    unfolding normalize_eq c replace_from_chr ..
  show "normalize (a @ ''Chr'' @ b) = normalize (a @ b)"
    unfolding normalize_eq c C replace_from_chr_Chr replace_from_Chr ..
qed

theorem C2_normalization_witness:
  "sort_key [(''Chromosome'', PStr ''scaffoldchr1'')] = Inr (AInt 1, AStr ''SCAFFOLD'', AInt 1)
   \<and> normalize ''scaffoldchr1'' = ''SCAFFOLD1''
   \<and> normalize ''scaffold7'' = ''SCAFFOLD7'' \<and> normalize ''chr10'' = ''10''
   \<and> normalize ''Chr10'' = ''10'' \<and> normalize ''Xchr1'' = normalize ''X1''"
proof -
  have o1: "\<not> occurs ''chr'' ''scaffold''" "\<not> occurs ''chr'' ''1''"
    "\<not> occurs ''Chr'' ''scaffold1''" by simp_all
  have m: "map_of [(''Chromosome'', PStr ''scaffoldchr1'')] ''Chromosome''
             = Some (PStr ''scaffoldchr1'')"
    by simp
  note t1 = C2_normalization [of "[(''Chromosome'', PStr ''scaffoldchr1'')]"
      "''scaffoldchr1''" "''scaffold''" "''1''"]
  note t2 = C2_normalization [of "[]" "''scaffold''" "[]" "[]"]
  note t3 = C2_normalization [of "[]" "''1''" "[]" "[]"]
  note t4 = C2_normalization [of "[]" "''scaffold1''" "[]" "[]"]
  from t1 m have k: "sort_key [(''Chromosome'', PStr ''scaffoldchr1'')] =
      label_key (upper (replace (replace ''scaffoldchr1'' ''chr'' []) ''Chr'' []))"
    and n: "normalize ''scaffoldchr1'' =
      upper (replace (replace ''scaffoldchr1'' ''chr'' []) ''Chr'' [])"
    and r: "replace (''scaffold'' @ ''chr'' @ ''1'') ''chr'' [] =
      replace ''scaffold'' ''chr'' [] @ replace ''1'' ''chr'' []"
    by blast+
  from t2 o1(1) have r2: "replace ''scaffold'' ''chr'' [] = ''scaffold''" by blast
  from t3 o1(2) have r3: "replace ''1'' ''chr'' [] = ''1''" by blast
  from t4 o1(3) have r4: "replace ''scaffold1'' ''Chr'' [] = ''scaffold1''"
    and u: "upper ''scaffold1'' =
       map (\<lambda>c. if CHR ''a'' \<le> c \<and> c \<le> CHR ''z'' then char_of (of_char c - (32 :: nat)) else c)
         ''scaffold1''"
    by blast+
  from r r2 r3 have r5: "replace ''scaffoldchr1'' ''chr'' [] = ''scaffold1''" by simp
  have u': "map (\<lambda>c. if CHR ''a'' \<le> c \<and> c \<le> CHR ''z'' then char_of (of_char c - (32 :: nat)) else c)
         ''scaffold1'' = ''SCAFFOLD1''"
    by code_simp
  have l: "label_key ''SCAFFOLD1'' = Inr (AInt 1, AStr ''SCAFFOLD'', AInt 1)"
    by code_simp
  have 1: "\<not> occurs ''chr'' ''scaffold7'' \<and> \<not> occurs ''Chr'' ''scaffold7''" by simp
  have 2: "\<not> occurs ''chr'' ''10'' \<and> \<not> occurs ''Chr'' ''10''" by simp
  have 3: "CHR ''c'' \<notin> set ''X'' \<and> CHR ''C'' \<notin> set ''X''" by simp
  from C2_normalization [of "[]" "''scaffold7''" "''X''" "''1''"] 1 3
  have b: "normalize ''scaffold7'' = upper ''scaffold7''"
    and c: "normalize (''X'' @ ''chr'' @ ''1'') = normalize (''X'' @ ''1'')"
    by blast+
  from C2_normalization [of "[]" "''10''" "[]" "[]"] 2
  have d: "normalize (''chr'' @ ''10'') = upper ''10''"
    and e: "normalize (''Chr'' @ ''10'') = upper ''10''"
    by blast+
  have v: "upper ''scaffold7'' = ''SCAFFOLD7''" "upper ''10'' = ''10''" by code_simp+
  from k n r4 r5 u u' l b c d e v show ?thesis by simp
qed

section \<open>The keys and their order\<close>

lemma well_formed_shape:
  assumes "well_formed k"
  obtains (numeric) n where "k = (AInt 0, AInt n, AStr [])"
    | (prefixed) p n where "k = (AInt 1, AStr p, AInt n)"
    | (other) p where "k = (AInt 2, AStr p, AInt 0)"
  using assms by (cases k rule: well_formed.cases) auto

lemma tuple_lt_rank:
  assumes "well_formed k1" and "well_formed k2"
  shows "tuple_lt k1 k2 = Inr (rank k1 < rank k2)"
  using assms(1)
proof (cases k1 rule: well_formed_shape)
  case (numeric n)
  from assms(2) show ?thesis
    by (cases k2 rule: well_formed_shape) (simp_all add: numeric)
next
  case (prefixed p n)
  from assms(2) show ?thesis
    by (cases k2 rule: well_formed_shape) (auto simp: prefixed)
next
  case (other p)
  from assms(2) show ?thesis
    by (cases k2 rule: well_formed_shape) (auto simp: other)
qed

lemma rank_inject:
  assumes "well_formed k1" and "well_formed k2" and "rank k1 = rank k2"
  shows "k1 = k2"
  using assms(1)
proof (cases k1 rule: well_formed_shape)
  case (numeric n)
  from assms(2,3) show ?thesis
    by (cases k2 rule: well_formed_shape) (simp_all add: numeric)
next
  case (prefixed p n)
  from assms(2,3) show ?thesis
    by (cases k2 rule: well_formed_shape) (simp_all add: prefixed)
next
  case (other p)
  from assms(2,3) show ?thesis
    by (cases k2 rule: well_formed_shape) (simp_all add: other)
qed

lemma is_digit_not_space: "is_digit c \<Longrightarrow> \<not> is_space c"
  by (simp add: is_digit_def is_space_def less_eq_char_def Let_def)

lemma is_digit_not_sign: "is_digit c \<Longrightarrow> c \<noteq> CHR ''-'' \<and> c \<noteq> CHR ''+''"
  by (auto simp: is_digit_def less_eq_char_def)

lemma digits_value_digits:
  "\<forall>c \<in> set ds. is_digit c \<Longrightarrow> \<exists>n. digits_value acc ds = Some n"
  by (induction acc ds rule: digits_value.induct) auto

lemma strip_digits:
  assumes "\<forall>c \<in> set ds. is_digit c"
  shows "strip ds = ds"
proof (cases ds rule: rev_cases)
  case Nil
  then show ?thesis by (simp add: strip_def)
next
  case (snoc ys y)
  with assms have y: "\<not> is_space y" by (simp add: is_digit_not_space)
  have "dropWhile is_space ds = ds"
  proof (cases ds)
    case Nil
    then show ?thesis by simp
  next
    case (Cons c cs)
    with assms have "\<not> is_space c" by (simp add: is_digit_not_space)
    with Cons show ?thesis by simp
  qed
  with snoc y show ?thesis by (simp add: strip_def)
qed

lemma py_int_digits:
  assumes "\<forall>c \<in> set ds. is_digit c" and "ds \<noteq> []"
  shows "py_int ds = None \<longleftrightarrow> int_max_str_digits < length ds"
proof -
  from assms(1) have f: "filter is_digit ds = ds" by simp
  show ?thesis
  proof (cases "int_max_str_digits < length ds")
    case True
    with f show ?thesis by (simp add: py_int_def)
  next
    case False
    from assms(2) obtain c cs where ds: "ds = c # cs" by (cases ds) auto
    with assms(1) have c: "is_digit c" by simp
    from digits_value_digits [OF assms(1)] obtain n where "digits_value 0 ds = Some n" by blast
    with ds c is_digit_not_sign [OF c] False f have "py_int ds = Some n"
      by (simp add: py_int_def strip_digits [OF assms(1), unfolded ds])
    with False show ?thesis by simp
  qed
qed

lemma re_match_digits:
  assumes "re_match s = Some (prefix, num)"
  shows "(\<forall>c \<in> set num. is_digit c) \<and> num \<noteq> []"
proof -
  from assms have "num = takeWhile is_digit (dropWhile is_upper s)" and "num \<noteq> []"
    by (auto simp: re_match_def Let_def split: if_splits)
  then show ?thesis by (auto dest: set_takeWhileD)
qed

lemma re_match_first:
  assumes "re_match s = Some (prefix, num)"
  shows "\<exists>c cs. s = c # cs \<and> is_upper c"
proof (cases s)
  case Nil
  with assms show ?thesis by (simp add: re_match_def)
next
  case (Cons c cs)
  with assms have "is_upper c"
    by (cases "is_upper c") (simp_all add: re_match_def Let_def)
  with Cons show ?thesis by blast
qed

lemma dropWhile_snoc:
  "\<not> P c \<Longrightarrow> \<exists>ys. dropWhile P (xs @ [c]) = ys @ [c]"
  by (induction xs) auto

lemma strip_first:
  assumes "\<not> is_space c"
  shows "\<exists>ys. strip (c # cs) = c # ys"
proof -
  from assms dropWhile_snoc [of is_space c "rev cs"] obtain ys where
    "dropWhile is_space (rev cs @ [c]) = ys @ [c]" by blast
  with assms show ?thesis by (simp add: strip_def)
qed

lemma is_upper_plain:
  "is_upper c \<Longrightarrow> \<not> is_space c \<and> \<not> is_digit c \<and> c \<noteq> CHR ''-'' \<and> c \<noteq> CHR ''+''"
  by (auto simp: is_upper_def is_space_def is_digit_def less_eq_char_def Let_def)

lemma py_int_upper:
  assumes "is_upper c"
  shows "py_int (c # cs) = None"
proof -
  from is_upper_plain [OF assms] strip_first [of c cs] obtain ys where
    "strip (c # cs) = c # ys" by blast
  with is_upper_plain [OF assms] show ?thesis by (simp add: py_int_def)
qed

lemma special_names:
  assumes "map_of special s = Some n"
  shows "re_match s = None"
proof -
  from assms have "s = ''X'' \<or> s = ''Y'' \<or> s = ''MT'' \<or> s = ''M'' \<or> s = ''MITO''
                   \<or> s = ''MITOCHONDRION''"
    by (simp add: special_def split: if_splits)
  moreover have "re_match ''X'' = None" "re_match ''Y'' = None" "re_match ''MT'' = None"
    "re_match ''M'' = None" "re_match ''MITO'' = None" "re_match ''MITOCHONDRION'' = None"
    by code_simp+
  ultimately show ?thesis by blast
qed

lemma label_key_matched:
  assumes "re_match s = Some (prefix, num)"
  shows "label_key s =
           (case py_int num of None \<Rightarrow> Inl ValueError | Some n \<Rightarrow> Inr (AInt 1, AStr prefix, AInt n))"
proof -
  have sp: "map_of special s = None"
  proof (cases "map_of special s")
    case (Some n)
    from special_names [OF Some] assms show ?thesis by simp
  qed simp
  from re_match_first [OF assms] obtain c cs where "s = c # cs" and "is_upper c" by blast
  then have "py_int s = None" by (simp add: py_int_upper)
  with sp assms show ?thesis by (simp add: label_key_def)
qed

lemma label_key_too_long:
  assumes "too_long s"
  shows "label_key s = Inl ValueError"
proof -
  from assms obtain prefix num where
    m: "re_match s = Some (prefix, num)" and l: "int_max_str_digits < length num"
    by (auto simp: too_long_def split: option.splits)
  from re_match_digits [OF m] l have "py_int num = None"
    by (simp add: py_int_digits)
  with label_key_matched [OF m] show ?thesis by simp
qed

lemma label_key_well_formed:
  assumes "\<not> too_long s"
  shows "\<exists>k. label_key s = Inr k \<and> well_formed k"
proof (cases "re_match s")
  case None
  then show ?thesis
    by (simp add: label_key_def split: option.splits)
next
  case (Some pn)
  obtain prefix num where pn: "pn = (prefix, num)" by (cases pn)
  with Some assms have "\<not> int_max_str_digits < length num"
    by (simp add: too_long_def)
  with re_match_digits [OF Some [unfolded pn]] obtain n where "py_int num = Some n"
    using py_int_digits [of num] by auto
  with label_key_matched [OF Some [unfolded pn]] show ?thesis by simp
qed

lemma label_key_Inr:
  assumes "label_key s = Inr k"
  shows "well_formed k \<and> \<not> too_long s"
proof (cases "too_long s")
  case True
  from label_key_too_long [OF True] assms show ?thesis by simp
next
  case False
  from label_key_well_formed [OF False] assms False show ?thesis by auto
qed

lemma sort_key_string:
  assumes "map_of item ''Chromosome'' = Some (PStr s)" and "\<not> too_long (normalize s)"
  shows "\<exists>k. sort_key item = Inr k \<and> well_formed k \<and> label_key (normalize s) = Inr k"
  using assms(1) label_key_well_formed [OF assms(2)] by (auto simp: sort_key_def)

lemma sort_key_too_long:
  assumes "map_of item ''Chromosome'' = Some (PStr s)"
  shows "sort_key item = Inl ValueError \<longleftrightarrow> too_long (normalize s)"
proof (cases "too_long (normalize s)")
  case True
  from label_key_too_long [OF True] assms True show ?thesis by (simp add: sort_key_def)
next
  case False
  from label_key_well_formed [OF False] assms False show ?thesis
    by (auto simp: sort_key_def)
qed



lemma occurs_first:
  "pat \<noteq> [] \<Longrightarrow> hd pat \<notin> set s \<Longrightarrow> \<not> occurs pat s"
proof (induction s)
  case Nil
  then show ?case by simp
next
  case (Cons c cs)
  then obtain p ps where "pat = p # ps" and "c \<noteq> p" by (cases pat) auto
  with Cons show ?case by auto
qed

lemma normalize_letters_digits:
  "normalize (''AB'' @ replicate n (CHR ''0'')) = ''AB'' @ replicate n (CHR ''0'')"
proof -
  have "\<not> occurs ''chr'' (''AB'' @ replicate n (CHR ''0''))"
    by (rule occurs_first) (auto simp: set_replicate_conv_if)
  then have 1: "replace_from ''chr'' [] (''AB'' @ replicate n (CHR ''0'')) =
                  ''AB'' @ replicate n (CHR ''0'')"
    by (rule replace_from_no_occurrence)
  have "\<not> occurs ''Chr'' (''AB'' @ replicate n (CHR ''0''))"
    by (rule occurs_first) (auto simp: set_replicate_conv_if)
  then have 2: "replace_from ''Chr'' [] (''AB'' @ replicate n (CHR ''0'')) =
                  ''AB'' @ replicate n (CHR ''0'')"
    by (rule replace_from_no_occurrence)
  have 3: "upper (''AB'' @ replicate n (CHR ''0'')) = ''AB'' @ replicate n (CHR ''0'')"
    by (simp add: upper_def upper_char_def is_lower_def less_eq_char_def)
  show ?thesis
    unfolding normalize_eq 1 2 by (rule 3)
qed

lemma too_long_letters_digits:
  "too_long (''AB'' @ replicate 4301 (CHR ''0''))"
  by (simp add: too_long_def re_match_def Let_def is_upper_def is_digit_def less_eq_char_def
      int_max_str_digits_def)


section \<open>The sort\<close>

lemma insert_keyed_place:
  assumes "well_formed (fst x)"
  shows "\<forall>y \<in> set ys. well_formed (fst y) \<Longrightarrow> insert_keyed x ys = Inr (place x ys)"
proof (induction ys)
  case Nil
  show ?case by (simp add: place_def)
next
  case (Cons y ys)
  then have y: "well_formed (fst y)" and ih: "insert_keyed x ys = Inr (place x ys)"
    by simp_all
  have lt: "tuple_lt (fst x) (fst y) = Inr (rank (fst x) < rank (fst y))"
    using assms y by (rule tuple_lt_rank)
  show ?case
  proof (cases "rank (fst x) < rank (fst y)")
    case True
    then have "\<not> rank (fst y) \<le> rank (fst x)" by simp
    with True lt show ?thesis by (simp add: place_def)
  next
    case False
    then have "rank (fst y) \<le> rank (fst x)" by simp
    with False lt ih show ?thesis by (simp add: place_def)
  qed
qed

lemma set_place: "set (place x ys) = insert x (set ys)"
proof -
  let ?tw = "takeWhile (\<lambda>y. rank (fst y) \<le> rank (fst x)) ys"
  let ?dw = "dropWhile (\<lambda>y. rank (fst y) \<le> rank (fst x)) ys"
  have "set ys = set (?tw @ ?dw)" by (simp only: takeWhile_dropWhile_id)
  then have eq: "set ys = set ?tw \<union> set ?dw" by (simp only: set_append)
  show ?thesis
    unfolding place_def set_append list.set(2) eq by (rule Un_insert_right)
qed

lemma dropWhile_greater:
  fixes f :: "'a \<Rightarrow> 'b::linorder"
  shows "sorted (map f ys) \<Longrightarrow> \<forall>z \<in> set (dropWhile (\<lambda>y. f y \<le> c) ys). c < f z"
proof (induction ys)
  case Nil
  show ?case by simp
next
  case (Cons y ys)
  show ?case
  proof (cases "f y \<le> c")
    case True
    with Cons show ?thesis by simp
  next
    case False
    with Cons.prems show ?thesis by fastforce
  qed
qed

lemma sorted_place:
  assumes "sorted (map (\<lambda>y. rank (fst y)) ys)"
  shows "sorted (map (\<lambda>y. rank (fst y)) (place x ys))"
proof -
  let ?f = "\<lambda>y. rank (fst y)"
  let ?tw = "takeWhile (\<lambda>y. ?f y \<le> ?f x) ys"
  let ?dw = "dropWhile (\<lambda>y. ?f y \<le> ?f x) ys"
  have split: "map ?f ys = map ?f ?tw @ map ?f ?dw"
    by (simp only: map_append [symmetric] takeWhile_dropWhile_id)
  from assms have s: "sorted (map ?f ?tw)" "sorted (map ?f ?dw)"
    and cross: "\<forall>a \<in> set ?tw. \<forall>b \<in> set ?dw. ?f a \<le> ?f b"
    unfolding split sorted_append by auto
  have le: "\<forall>a \<in> set ?tw. ?f a \<le> ?f x"
    by (auto dest: set_takeWhileD)
  have gt: "\<forall>b \<in> set ?dw. ?f x < ?f b"
    using dropWhile_greater [OF assms] by blast
  from gt have ge: "\<forall>b \<in> set ?dw. ?f x \<le> ?f b"
    using less_imp_le by blast
  with s(2) have 1: "sorted (?f x # map ?f ?dw)" by simp
  have 2: "\<forall>a \<in> set (map ?f ?tw). \<forall>b \<in> set (?f x # map ?f ?dw). a \<le> b"
  proof (intro ballI)
    fix a b
    assume "a \<in> set (map ?f ?tw)" and "b \<in> set (?f x # map ?f ?dw)"
    then obtain a' where a: "a' \<in> set ?tw" "a = ?f a'"
      and b: "b = ?f x \<or> (\<exists>b' \<in> set ?dw. b = ?f b')"
      by (auto simp only: set_map list.set(2) insert_iff image_iff)
    from b show "a \<le> b"
    proof
      assume "b = ?f x"
      with a le show ?thesis by blast
    next
      assume "\<exists>b' \<in> set ?dw. b = ?f b'"
      with a cross show ?thesis by blast
    qed
  qed
  have "sorted (map ?f ?tw @ ?f x # map ?f ?dw)"
    unfolding sorted_append using s(1) 1 2 by blast
  then show ?thesis by (simp only: place_def map_append list.map)
qed

lemma filter_place:
  assumes "sorted (map (\<lambda>y. rank (fst y)) ys)"
  shows "filter (\<lambda>y. rank (fst y) = c) (place x ys) =
           filter (\<lambda>y. rank (fst y) = c) ys @ (if rank (fst x) = c then [x] else [])"
proof -
  let ?f = "\<lambda>y. rank (fst y)"
  let ?tw = "takeWhile (\<lambda>y. ?f y \<le> ?f x) ys"
  let ?dw = "dropWhile (\<lambda>y. ?f y \<le> ?f x) ys"
  have ys: "filter (\<lambda>y. ?f y = c) ys = filter (\<lambda>y. ?f y = c) ?tw @ filter (\<lambda>y. ?f y = c) ?dw"
    by (simp only: filter_append [symmetric] takeWhile_dropWhile_id)
  show ?thesis
  proof (cases "?f x = c")
    case True
    have "\<forall>b \<in> set ?dw. ?f b \<noteq> c"
      using dropWhile_greater [OF assms, of "?f x"] True by auto
    then have "filter (\<lambda>y. ?f y = c) ?dw = []" by (simp add: filter_empty_conv)
    with True show ?thesis unfolding ys place_def by simp
  next
    case False
    then show ?thesis unfolding ys place_def by simp
  qed
qed

lemma sort_keyed_well_formed:
  assumes "\<forall>y \<in> set xs. well_formed (fst y)"
  shows "\<forall>y \<in> set acc. well_formed (fst y) \<Longrightarrow> sorted (map (\<lambda>y. rank (fst y)) acc) \<Longrightarrow>
         \<exists>res. sort_keyed acc xs = Inr res
           \<and> sorted (map (\<lambda>y. rank (fst y)) res)
           \<and> (\<forall>c. filter (\<lambda>y. rank (fst y) = c) res =
                  filter (\<lambda>y. rank (fst y) = c) acc @ filter (\<lambda>y. rank (fst y) = c) xs)"
  using assms
proof (induction xs arbitrary: acc)
  case Nil
  then show ?case by simp
next
  case (Cons x xs)
  from Cons.prems have x: "well_formed (fst x)" and xs: "\<forall>y \<in> set xs. well_formed (fst y)"
    by simp_all
  have i: "insert_keyed x acc = Inr (place x acc)"
    using x Cons.prems(1) by (rule insert_keyed_place)
  have wf: "\<forall>y \<in> set (place x acc). well_formed (fst y)"
    using x Cons.prems(1) by (simp add: set_place)
  have so: "sorted (map (\<lambda>y. rank (fst y)) (place x acc))"
    using Cons.prems(2) by (rule sorted_place)
  from Cons.IH [OF wf so xs] obtain res where
    r: "sort_keyed (place x acc) xs = Inr res"
       "sorted (map (\<lambda>y. rank (fst y)) res)"
       "\<forall>c. filter (\<lambda>y. rank (fst y) = c) res =
              filter (\<lambda>y. rank (fst y) = c) (place x acc) @ filter (\<lambda>y. rank (fst y) = c) xs"
    by blast
  from r(3) have "\<forall>c. filter (\<lambda>y. rank (fst y) = c) res =
              filter (\<lambda>y. rank (fst y) = c) acc @ filter (\<lambda>y. rank (fst y) = c) (x # xs)"
    by (simp add: filter_place [OF Cons.prems(2)])
  with i r(1,2) show ?case by simp
qed

lemma place_last:
  assumes "\<forall>y \<in> set acc. rank (fst y) \<le> rank (fst x)"
  shows "place x acc = acc @ [x]"
proof -
  from assms have "takeWhile (\<lambda>y. rank (fst y) \<le> rank (fst x)) acc = acc"
    by (simp add: takeWhile_eq_all_conv)
  moreover from assms have "dropWhile (\<lambda>y. rank (fst y) \<le> rank (fst x)) acc = []"
    by simp
  ultimately show ?thesis by (simp add: place_def)
qed

lemma sort_keyed_sorted:
  assumes "\<forall>y \<in> set xs. well_formed (fst y)"
  shows "\<forall>y \<in> set acc. well_formed (fst y) \<Longrightarrow> sorted (map (\<lambda>y. rank (fst y)) (acc @ xs)) \<Longrightarrow>
         sort_keyed acc xs = Inr (acc @ xs)"
  using assms
proof (induction xs arbitrary: acc)
  case Nil
  show ?case by simp
next
  case (Cons x xs)
  from Cons.prems have x: "well_formed (fst x)" and xs: "\<forall>y \<in> set xs. well_formed (fst y)"
    by simp_all
  from Cons.prems(2) have le: "\<forall>y \<in> set acc. rank (fst y) \<le> rank (fst x)"
    by (auto simp: sorted_append)
  have i: "insert_keyed x acc = Inr (acc @ [x])"
    using insert_keyed_place [OF x Cons.prems(1)] place_last [OF le] by simp
  have wf: "\<forall>y \<in> set (acc @ [x]). well_formed (fst y)"
    using x Cons.prems(1) by simp
  have so: "sorted (map (\<lambda>y. rank (fst y)) ((acc @ [x]) @ xs))"
    using Cons.prems(2) by simp
  from Cons.IH [OF wf so xs] i show ?case by simp
qed

lemma sort_key_well_formed:
  assumes "sort_key r = Inr k"
  shows "well_formed k"
proof (cases "map_of r ''Chromosome''")
  case None
  with assms show ?thesis by (simp add: sort_key_def)
next
  case (Some v)
  show ?thesis
  proof (cases v)
    case (PStr s)
    with Some assms have "label_key (normalize s) = Inr k" by (simp add: sort_key_def)
    then show ?thesis using label_key_Inr by blast
  qed (use assms Some in \<open>simp_all add: sort_key_def\<close>)
qed

lemma keyed_pairs:
  "keyed rows = Inr kis \<Longrightarrow>
   map snd kis = rows \<and> (\<forall>x \<in> set kis. sort_key (snd x) = Inr (fst x))"
proof (induction rows arbitrary: kis)
  case Nil
  then show ?case by simp
next
  case (Cons r rows)
  from Cons.prems obtain k kis' where
    k: "sort_key r = Inr k" and ks: "keyed rows = Inr kis'" and kis: "kis = (k, r) # kis'"
    by (auto split: sum.splits)
  from Cons.IH [OF ks] k kis show ?case by simp
qed

lemma keyed_of_pairs:
  "\<forall>x \<in> set s. sort_key (snd x) = Inr (fst x) \<Longrightarrow> keyed (map snd s) = Inr s"
  by (induction s) simp_all

lemma keyed_success:
  "\<forall>r \<in> set rows. \<exists>s. map_of r ''Chromosome'' = Some (PStr s) \<and> \<not> too_long (normalize s) \<Longrightarrow>
   \<exists>kis. keyed rows = Inr kis"
proof (induction rows)
  case Nil
  show ?case by simp
next
  case (Cons r rows)
  then obtain s kis where "map_of r ''Chromosome'' = Some (PStr s)"
    and "\<not> too_long (normalize s)" and "keyed rows = Inr kis"
    by auto
  with sort_key_string [of r s] show ?case by auto
qed

lemma keyed_string_error:
  "\<forall>r \<in> set rows. \<exists>s. map_of r ''Chromosome'' = Some (PStr s) \<Longrightarrow>
   keyed rows = Inl e \<Longrightarrow> e = ValueError"
proof (induction rows)
  case Nil
  then show ?case by simp
next
  case (Cons r rows)
  from Cons.prems(1) obtain s where s: "map_of r ''Chromosome'' = Some (PStr s)" by auto
  show ?case
  proof (cases "too_long (normalize s)")
    case True
    with sort_key_too_long [OF s] have "sort_key r = Inl ValueError" by simp
    with Cons.prems(2) show ?thesis by simp
  next
    case False
    from sort_key_string [OF s False] obtain k where k: "sort_key r = Inr k" by blast
    with Cons.prems(2) have "keyed rows = Inl e"
      by (cases "keyed rows") simp_all
    with Cons show ?thesis by simp
  qed
qed

lemma keyed_too_long:
  assumes "\<forall>r \<in> set rows. \<exists>s. map_of r ''Chromosome'' = Some (PStr s)"
    and "\<exists>r \<in> set rows. \<exists>s. map_of r ''Chromosome'' = Some (PStr s) \<and> too_long (normalize s)"
  shows "keyed rows = Inl ValueError"
proof (cases "keyed rows")
  case (Inl e)
  with keyed_string_error [OF assms(1)] show ?thesis by simp
next
  case (Inr kis)
  from assms(2) obtain r s where r: "r \<in> set rows"
    and s: "map_of r ''Chromosome'' = Some (PStr s)" and t: "too_long (normalize s)"
    by blast
  from keyed_pairs [OF Inr] r obtain x where "x \<in> set kis" and "snd x = r"
    and "sort_key (snd x) = Inr (fst x)"
    by (metis (no_types, lifting) imageE list.set_map)
  with sort_key_too_long [OF s] t show ?thesis by simp
qed

lemma pairs_well_formed:
  assumes "\<forall>x \<in> set kis. sort_key (snd x) = Inr (fst x)"
  shows "\<forall>x \<in> set kis. well_formed (fst x)"
  using assms sort_key_well_formed by blast

lemma filter_by_key:
  assumes "\<forall>x \<in> set kis. sort_key (snd x) = Inr (fst x)"
  shows "filter (\<lambda>r. sort_key r = Inr k) (map snd kis) =
           map snd (filter (\<lambda>x. rank (fst x) = rank k \<and> well_formed k) kis)"
proof -
  have "filter (\<lambda>r. sort_key r = Inr k) (map snd kis) =
          map snd (filter (\<lambda>x. sort_key (snd x) = Inr k) kis)"
    by (simp add: filter_map comp_def)
  also have "filter (\<lambda>x. sort_key (snd x) = Inr k) kis =
               filter (\<lambda>x. rank (fst x) = rank k \<and> well_formed k) kis"
  proof (rule filter_cong [OF refl])
    fix x assume x: "x \<in> set kis"
    with assms have sk: "sort_key (snd x) = Inr (fst x)" by blast
    then have wf: "well_formed (fst x)" by (rule sort_key_well_formed)
    show "(sort_key (snd x) = Inr k) = (rank (fst x) = rank k \<and> well_formed k)"
      using sk wf rank_inject [OF wf, of k] by auto
  qed
  finally show ?thesis .
qed

lemma sorted_rank_ordered:
  assumes "\<forall>x \<in> set kis. sort_key (snd x) = Inr (fst x)"
  shows "sorted (map (\<lambda>y. rank (fst y)) kis) \<longleftrightarrow> ordered (map snd kis)"
proof -
  have eq: "(rank (fst x) \<le> rank (fst y)) = not_after (snd x) (snd y)"
    if "x \<in> set kis" and "y \<in> set kis" for x y
  proof -
    from that assms have x: "sort_key (snd x) = Inr (fst x)"
      and y: "sort_key (snd y) = Inr (fst y)"
      by blast+
    have "tuple_lt (fst y) (fst x) = Inr (rank (fst y) < rank (fst x))"
      using sort_key_well_formed [OF y] sort_key_well_formed [OF x] by (rule tuple_lt_rank)
    with x y show ?thesis
      by (simp add: not_after_def not_less)
  qed
  have "sorted (map (\<lambda>y. rank (fst y)) kis) =
          sorted_wrt (\<lambda>x y. rank (fst x) \<le> rank (fst y)) kis"
    by (simp add: sorted_map)
  also have "\<dots> = sorted_wrt (\<lambda>x y. not_after (snd x) (snd y)) kis"
  proof
    assume "sorted_wrt (\<lambda>x y. rank (fst x) \<le> rank (fst y)) kis"
    then show "sorted_wrt (\<lambda>x y. not_after (snd x) (snd y)) kis"
      by (rule sorted_wrt_mono_rel [rotated]) (simp add: eq)
  next
    assume "sorted_wrt (\<lambda>x y. not_after (snd x) (snd y)) kis"
    then show "sorted_wrt (\<lambda>x y. rank (fst x) \<le> rank (fst y)) kis"
      by (rule sorted_wrt_mono_rel [rotated]) (simp add: eq)
  qed
  also have "\<dots> = ordered (map snd kis)"
    by (simp add: ordered_def sorted_wrt_map)
  finally show ?thesis .
qed

text \<open>
  C7. Sorting the rows by the key succeeds whenever every row has a string label that has
  a key (one whose normalised form is not letters followed by more digits than \<^verbatim>\<open>int()\<close>
  converts); with such a label among string labels, the sort raises ValueError. The sort is
  idempotent: sorting the sorted table returns it unchanged, and so does sorting any table
  that is already ordered. It is stable: the result is ordered, and for every key the rows
  with that key are in the result in the order they had before.
\<close>

theorem C7_sort_idempotent_stable:
  "((\<forall>r \<in> set table_data.
        \<exists>s. map_of r ''Chromosome'' = Some (PStr s) \<and> \<not> too_long (normalize s)) \<longrightarrow>
      (\<exists>rows. sort_table table_data = Inr rows))
   \<and> (sort_table table_data = Inr sorted_rows \<longrightarrow>
        sort_table sorted_rows = Inr sorted_rows
        \<and> ordered sorted_rows
        \<and> (\<forall>k. filter (\<lambda>r. sort_key r = Inr k) sorted_rows =
                 filter (\<lambda>r. sort_key r = Inr k) table_data))
   \<and> ((\<forall>r \<in> set table_data.
         \<exists>s. map_of r ''Chromosome'' = Some (PStr s) \<and> \<not> too_long (normalize s))
        \<and> ordered table_data \<longrightarrow> sort_table table_data = Inr table_data)
   \<and> ((\<forall>r \<in> set table_data. \<exists>s. map_of r ''Chromosome'' = Some (PStr s))
        \<and> (\<exists>r \<in> set table_data.
              \<exists>s. map_of r ''Chromosome'' = Some (PStr s) \<and> too_long (normalize s))
        \<longrightarrow> sort_table table_data = Inl ValueError)"
proof (intro conjI impI)
  assume "\<forall>r \<in> set table_data.
        \<exists>s. map_of r ''Chromosome'' = Some (PStr s) \<and> \<not> too_long (normalize s)"
  from keyed_success [OF this] obtain kis where k: "keyed table_data = Inr kis" by blast
  from keyed_pairs [OF k] have "\<forall>x \<in> set kis. well_formed (fst x)"
    using pairs_well_formed by blast
  from sort_keyed_well_formed [OF this, of "[]"] obtain res where
    "sort_keyed [] kis = Inr res" by auto
  with k show "\<exists>rows. sort_table table_data = Inr rows"
    by (simp add: sort_table_def)
next
  assume st: "sort_table table_data = Inr sorted_rows"
  then obtain kis s where
    k: "keyed table_data = Inr kis" and s: "sort_keyed [] kis = Inr s"
    and rows: "sorted_rows = map snd s"
    by (auto simp: sort_table_def split: sum.splits)
  from keyed_pairs [OF k] have t: "map snd kis = table_data"
    and pk: "\<forall>x \<in> set kis. sort_key (snd x) = Inr (fst x)" by blast+
  from pk have wk: "\<forall>x \<in> set kis. well_formed (fst x)" by (rule pairs_well_formed)
  from sort_keyed_well_formed [OF wk, of "[]"] s have
    so: "sorted (map (\<lambda>y. rank (fst y)) s)"
    and fi: "\<forall>c. filter (\<lambda>y. rank (fst y) = c) s = filter (\<lambda>y. rank (fst y) = c) kis"
    by auto
  from sort_keyed_set [OF s] have set: "set s = set kis" by simp
  with pk have ps: "\<forall>x \<in> set s. sort_key (snd x) = Inr (fst x)" by blast
  then have ws: "\<forall>x \<in> set s. well_formed (fst x)" by (rule pairs_well_formed)
  have "sort_keyed [] s = Inr ([] @ s)"
    using ws by (rule sort_keyed_sorted) (use so in simp_all)
  with keyed_of_pairs [OF ps] show "sort_table sorted_rows = Inr sorted_rows"
    by (simp add: sort_table_def rows)
  from so sorted_rank_ordered [OF ps] show "ordered sorted_rows"
    by (simp add: rows)
  show "\<forall>k. filter (\<lambda>r. sort_key r = Inr k) sorted_rows =
                 filter (\<lambda>r. sort_key r = Inr k) table_data"
  proof
    fix k
    have "filter (\<lambda>x. rank (fst x) = rank k \<and> well_formed k) s =
          filter (\<lambda>x. rank (fst x) = rank k \<and> well_formed k) kis"
    proof (cases "well_formed k")
      case True
      with fi [THEN spec, of "rank k"] show ?thesis by simp
    next
      case False
      then show ?thesis by simp
    qed
    then show "filter (\<lambda>r. sort_key r = Inr k) sorted_rows =
                 filter (\<lambda>r. sort_key r = Inr k) table_data"
      unfolding rows t [symmetric] filter_by_key [OF ps] filter_by_key [OF pk] by simp
  qed
next
  assume a: "(\<forall>r \<in> set table_data.
         \<exists>s. map_of r ''Chromosome'' = Some (PStr s) \<and> \<not> too_long (normalize s))
        \<and> ordered table_data"
  from keyed_success [of table_data] a obtain kis where k: "keyed table_data = Inr kis"
    by blast
  from keyed_pairs [OF k] have t: "map snd kis = table_data"
    and pk: "\<forall>x \<in> set kis. sort_key (snd x) = Inr (fst x)" by blast+
  from pk have wk: "\<forall>x \<in> set kis. well_formed (fst x)" by (rule pairs_well_formed)
  from a t sorted_rank_ordered [OF pk] have so: "sorted (map (\<lambda>y. rank (fst y)) kis)"
    by simp
  have "sort_keyed [] kis = Inr ([] @ kis)"
    using wk by (rule sort_keyed_sorted) (use so in simp_all)
  with k t show "sort_table table_data = Inr table_data"
    by (simp add: sort_table_def)
next
  assume "(\<forall>r \<in> set table_data. \<exists>s. map_of r ''Chromosome'' = Some (PStr s))
        \<and> (\<exists>r \<in> set table_data.
              \<exists>s. map_of r ''Chromosome'' = Some (PStr s) \<and> too_long (normalize s))"
  then have "keyed table_data = Inl ValueError"
    using keyed_too_long [of table_data] by blast
  then show "sort_table table_data = Inl ValueError"
    by (simp add: sort_table_def)
qed

theorem C7_sort_idempotent_stable_witness:
  "sort_table
     [[(''Chromosome'', PStr ''chr2'')],
      [(''Chromosome'', PStr ''chrX'')],
      [(''Chromosome'', PStr ''chr10'')],
      [(''Chromosome'', PStr ''scaffold1'')],
      [(''Chromosome'', PStr ''chrY'')],
      [(''Chromosome'', PStr ''chrMT'')],
      [(''Chromosome'', PStr ''chr1'')]]
   = Inr
     [[(''Chromosome'', PStr ''chr1'')],
      [(''Chromosome'', PStr ''chr2'')],
      [(''Chromosome'', PStr ''chr10'')],
      [(''Chromosome'', PStr ''chrX'')],
      [(''Chromosome'', PStr ''chrY'')],
      [(''Chromosome'', PStr ''chrMT'')],
      [(''Chromosome'', PStr ''scaffold1'')]]
   \<and> sort_table
     [[(''Chromosome'', PStr ''chr1'')],
      [(''Chromosome'', PStr ''chr2'')],
      [(''Chromosome'', PStr ''chr10'')],
      [(''Chromosome'', PStr ''chrX'')],
      [(''Chromosome'', PStr ''chrY'')],
      [(''Chromosome'', PStr ''chrMT'')],
      [(''Chromosome'', PStr ''scaffold1'')]]
   = Inr
     [[(''Chromosome'', PStr ''chr1'')],
      [(''Chromosome'', PStr ''chr2'')],
      [(''Chromosome'', PStr ''chr10'')],
      [(''Chromosome'', PStr ''chrX'')],
      [(''Chromosome'', PStr ''chrY'')],
      [(''Chromosome'', PStr ''chrMT'')],
      [(''Chromosome'', PStr ''scaffold1'')]]
   \<and> ordered
     [[(''Chromosome'', PStr ''chr1'')],
      [(''Chromosome'', PStr ''chr2'')],
      [(''Chromosome'', PStr ''chr10'')],
      [(''Chromosome'', PStr ''chrX'')],
      [(''Chromosome'', PStr ''chrY'')],
      [(''Chromosome'', PStr ''chrMT'')],
      [(''Chromosome'', PStr ''scaffold1'')]]
   \<and> sort_table
     [[(''Chromosome'', PStr ''MT'')],
      [(''Chromosome'', PStr ''KI27'')],
      [(''Chromosome'', PStr ''M'')],
      [(''Chromosome'', PStr ''KI3'')]]
   = Inr
     [[(''Chromosome'', PStr ''MT'')],
      [(''Chromosome'', PStr ''M'')],
      [(''Chromosome'', PStr ''KI3'')],
      [(''Chromosome'', PStr ''KI27'')]]
   \<and> filter (\<lambda>r. sort_key r = Inr (AInt 0, AInt 1002, AStr []))
     [[(''Chromosome'', PStr ''MT'')],
      [(''Chromosome'', PStr ''M'')],
      [(''Chromosome'', PStr ''KI3'')],
      [(''Chromosome'', PStr ''KI27'')]]
   = [[(''Chromosome'', PStr ''MT'')], [(''Chromosome'', PStr ''M'')]]
   \<and> sort_table [[(''Chromosome'', PStr ''chr1'')], [(''Chromosome'', PStr ''chrX'')]]
     = Inr [[(''Chromosome'', PStr ''chr1'')], [(''Chromosome'', PStr ''chrX'')]]
   \<and> sort_table [[(''Chromosome'', PStr ''chr1'')],
                  [(''Chromosome'', PStr (''AB'' @ replicate 4301 (CHR ''0'')))]]
     = Inl ValueError"
proof -
  have n1: "\<not> too_long (normalize ''chr1'')" and nX: "\<not> too_long (normalize ''chrX'')"
    by code_simp+
  have h3: "(\<forall>r \<in> set [[(''Chromosome'', PStr ''chr1'')], [(''Chromosome'', PStr ''chrX'')]].
         \<exists>s. map_of r ''Chromosome'' = Some (PStr s) \<and> \<not> too_long (normalize s))
        \<and> ordered [[(''Chromosome'', PStr ''chr1'')], [(''Chromosome'', PStr ''chrX'')]]"
  proof
    show "\<forall>r \<in> set [[(''Chromosome'', PStr ''chr1'')], [(''Chromosome'', PStr ''chrX'')]].
         \<exists>s. map_of r ''Chromosome'' = Some (PStr s) \<and> \<not> too_long (normalize s)"
      using n1 nX by simp
    show "ordered [[(''Chromosome'', PStr ''chr1'')], [(''Chromosome'', PStr ''chrX'')]]"
      by code_simp
  qed
  from C7_sort_idempotent_stable
         [of "[[(''Chromosome'', PStr ''chr1'')], [(''Chromosome'', PStr ''chrX'')]]"] h3
  have d: "sort_table [[(''Chromosome'', PStr ''chr1'')], [(''Chromosome'', PStr ''chrX'')]]
     = Inr [[(''Chromosome'', PStr ''chr1'')], [(''Chromosome'', PStr ''chrX'')]]"
    by blast
  have tl: "too_long (normalize (''AB'' @ replicate 4301 (CHR ''0'')))"
    by (simp only: normalize_letters_digits too_long_letters_digits)
  have h4: "(\<forall>r \<in> set [[(''Chromosome'', PStr ''chr1'')],
                  [(''Chromosome'', PStr (''AB'' @ replicate 4301 (CHR ''0'')))]].
          \<exists>s. map_of r ''Chromosome'' = Some (PStr s))
        \<and> (\<exists>r \<in> set [[(''Chromosome'', PStr ''chr1'')],
                  [(''Chromosome'', PStr (''AB'' @ replicate 4301 (CHR ''0'')))]].
              \<exists>s. map_of r ''Chromosome'' = Some (PStr s) \<and> too_long (normalize s))"
    using tl by simp
  from C7_sort_idempotent_stable
         [of "[[(''Chromosome'', PStr ''chr1'')],
               [(''Chromosome'', PStr (''AB'' @ replicate 4301 (CHR ''0'')))]]"] h4
  have e: "sort_table [[(''Chromosome'', PStr ''chr1'')],
                  [(''Chromosome'', PStr (''AB'' @ replicate 4301 (CHR ''0'')))]]
     = Inl ValueError"
    by blast
  have a: "sort_table
     [[(''Chromosome'', PStr ''chr2'')],
      [(''Chromosome'', PStr ''chrX'')],
      [(''Chromosome'', PStr ''chr10'')],
      [(''Chromosome'', PStr ''scaffold1'')],
      [(''Chromosome'', PStr ''chrY'')],
      [(''Chromosome'', PStr ''chrMT'')],
      [(''Chromosome'', PStr ''chr1'')]]
   = Inr
     [[(''Chromosome'', PStr ''chr1'')],
      [(''Chromosome'', PStr ''chr2'')],
      [(''Chromosome'', PStr ''chr10'')],
      [(''Chromosome'', PStr ''chrX'')],
      [(''Chromosome'', PStr ''chrY'')],
      [(''Chromosome'', PStr ''chrMT'')],
      [(''Chromosome'', PStr ''scaffold1'')]]"
    by code_simp
  have b: "sort_table
     [[(''Chromosome'', PStr ''MT'')],
      [(''Chromosome'', PStr ''KI27'')],
      [(''Chromosome'', PStr ''M'')],
      [(''Chromosome'', PStr ''KI3'')]]
   = Inr
     [[(''Chromosome'', PStr ''MT'')],
      [(''Chromosome'', PStr ''M'')],
      [(''Chromosome'', PStr ''KI3'')],
      [(''Chromosome'', PStr ''KI27'')]]"
    by code_simp
  have c: "filter (\<lambda>r. sort_key r = Inr (AInt 0, AInt 1002, AStr []))
     [[(''Chromosome'', PStr ''MT'')],
      [(''Chromosome'', PStr ''KI27'')],
      [(''Chromosome'', PStr ''M'')],
      [(''Chromosome'', PStr ''KI3'')]]
   = [[(''Chromosome'', PStr ''MT'')], [(''Chromosome'', PStr ''M'')]]"
    by code_simp
  note t = C7_sort_idempotent_stable [of
     "[[(''Chromosome'', PStr ''chr2'')],
      [(''Chromosome'', PStr ''chrX'')],
      [(''Chromosome'', PStr ''chr10'')],
      [(''Chromosome'', PStr ''scaffold1'')],
      [(''Chromosome'', PStr ''chrY'')],
      [(''Chromosome'', PStr ''chrMT'')],
      [(''Chromosome'', PStr ''chr1'')]]"
     "[[(''Chromosome'', PStr ''chr1'')],
      [(''Chromosome'', PStr ''chr2'')],
      [(''Chromosome'', PStr ''chr10'')],
      [(''Chromosome'', PStr ''chrX'')],
      [(''Chromosome'', PStr ''chrY'')],
      [(''Chromosome'', PStr ''chrMT'')],
      [(''Chromosome'', PStr ''scaffold1'')]]"]
  note u = C7_sort_idempotent_stable [of
     "[[(''Chromosome'', PStr ''MT'')],
      [(''Chromosome'', PStr ''KI27'')],
      [(''Chromosome'', PStr ''M'')],
      [(''Chromosome'', PStr ''KI3'')]]"
     "[[(''Chromosome'', PStr ''MT'')],
      [(''Chromosome'', PStr ''M'')],
      [(''Chromosome'', PStr ''KI3'')],
      [(''Chromosome'', PStr ''KI27'')]]"]
  from t a have "sort_table
     [[(''Chromosome'', PStr ''chr1'')],
      [(''Chromosome'', PStr ''chr2'')],
      [(''Chromosome'', PStr ''chr10'')],
      [(''Chromosome'', PStr ''chrX'')],
      [(''Chromosome'', PStr ''chrY'')],
      [(''Chromosome'', PStr ''chrMT'')],
      [(''Chromosome'', PStr ''scaffold1'')]]
   = Inr
     [[(''Chromosome'', PStr ''chr1'')],
      [(''Chromosome'', PStr ''chr2'')],
      [(''Chromosome'', PStr ''chr10'')],
      [(''Chromosome'', PStr ''chrX'')],
      [(''Chromosome'', PStr ''chrY'')],
      [(''Chromosome'', PStr ''chrMT'')],
      [(''Chromosome'', PStr ''scaffold1'')]]"
    and "ordered
     [[(''Chromosome'', PStr ''chr1'')],
      [(''Chromosome'', PStr ''chr2'')],
      [(''Chromosome'', PStr ''chr10'')],
      [(''Chromosome'', PStr ''chrX'')],
      [(''Chromosome'', PStr ''chrY'')],
      [(''Chromosome'', PStr ''chrMT'')],
      [(''Chromosome'', PStr ''scaffold1'')]]"
    by blast+
  moreover from u b have "filter (\<lambda>r. sort_key r = Inr (AInt 0, AInt 1002, AStr []))
     [[(''Chromosome'', PStr ''MT'')],
      [(''Chromosome'', PStr ''M'')],
      [(''Chromosome'', PStr ''KI3'')],
      [(''Chromosome'', PStr ''KI27'')]]
   = filter (\<lambda>r. sort_key r = Inr (AInt 0, AInt 1002, AStr []))
     [[(''Chromosome'', PStr ''MT'')],
      [(''Chromosome'', PStr ''KI27'')],
      [(''Chromosome'', PStr ''M'')],
      [(''Chromosome'', PStr ''KI3'')]]"
    by blast
  ultimately show ?thesis using a b c d e by simp
qed

end
